theory Spec2Isabelle
  imports Main
begin

section \<open>Strings\<close>

text \<open>
  A JavaScript string is a sequence of UTF-16 code units. The embedding uses \<open>string\<close>
  (a \<open>char list\<close>); a \<open>char\<close> stands for the code unit with the same number, so the
  strings of the model are the JavaScript strings whose code units are below 256.
\<close>

abbreviation (input) nl :: char where "nl \<equiv> CHR 0x0A"
abbreviation (input) cr :: char where "cr \<equiv> CHR 0x0D"
abbreviation (input) bs :: char where "bs \<equiv> CHR 0x5C"
abbreviation (input) dq :: char where "dq \<equiv> CHR 0x22"
abbreviation (input) bt :: char where "bt \<equiv> CHR 0x60"

text \<open>
  The regular expression class \<open>\s\<close> and the characters \<open>String.prototype.trim\<close>
  strips: tab, line feed, vertical tab, form feed, carriage return, space and the
  no-break space (the members of the class below 256).
\<close>

definition isSpace :: "char \<Rightarrow> bool" where
  "isSpace c = (c = CHR 0x09 \<or> c = CHR 0x0A \<or> c = CHR 0x0B \<or> c = CHR 0x0C \<or>
                c = CHR 0x0D \<or> c = CHR 0x20 \<or> c = CHR 0xA0)"

text \<open>A line terminator: with the flag \<open>m\<close>, \<open>^\<close> matches after each of them.\<close>

definition isLineTerminator :: "char \<Rightarrow> bool" where
  "isLineTerminator c = (c = nl \<or> c = cr)"

text \<open>The class \<open>\d\<close>.\<close>

definition isDigit :: "char \<Rightarrow> bool" where
  "isDigit c = (c \<in> set ''0123456789'')"

text \<open>\<open>s.trim()\<close>\<close>

definition js_trim :: "string \<Rightarrow> string" where
  "js_trim s = rev (dropWhile isSpace (rev (dropWhile isSpace s)))"

text \<open>\<open>s.split('\n')\<close>: never the empty array; the empty string splits into one empty piece.\<close>

fun js_split :: "string \<Rightarrow> string list" where
  "js_split [] = [[]]"
| "js_split (c # cs) =
     (if c = nl then [] # js_split cs
      else (case js_split cs of [] \<Rightarrow> [[c]] | l # ls \<Rightarrow> (c # l) # ls))"

text \<open>\<open>xs.join(sep)\<close>: the empty array joins to the empty string.\<close>

fun js_join :: "string \<Rightarrow> string list \<Rightarrow> string" where
  "js_join sep [] = []"
| "js_join sep [x] = x"
| "js_join sep (x # y # ys) = x @ sep @ js_join sep (y # ys)"

text \<open>
  \<open>s.replaceAll(c, r)\<close> and \<open>s.replace(/c/g, r)\<close> for a pattern of one literal character.
\<close>

definition replaceAllChar :: "char \<Rightarrow> string \<Rightarrow> string \<Rightarrow> string" where
  "replaceAllChar c r s = concat (map (\<lambda>x. if x = c then r else [x]) s)"

section \<open>The node tree\<close>

text \<open>
  A DOM node is a text node or an element with its tag name in lower case
  (\<open>node.tagName.toLowerCase()\<close>), its attributes in order and its child nodes.
  The checkedness of a checkbox (\<open>checkbox.checked\<close>) is the presence of the key
  \<open>checked\<close> among the attributes.
\<close>

datatype node = Text string | Element string "(string \<times> string) list" "node list"

fun isElement :: "node \<Rightarrow> bool" where
  "isElement (Text t) = False"
| "isElement (Element tg as cs) = True"

fun tagName :: "node \<Rightarrow> string" where
  "tagName (Text t) = []"
| "tagName (Element tg as cs) = tg"

fun attributes :: "node \<Rightarrow> (string \<times> string) list" where
  "attributes (Text t) = []"
| "attributes (Element tg as cs) = as"

fun childNodes :: "node \<Rightarrow> node list" where
  "childNodes (Text t) = []"
| "childNodes (Element tg as cs) = cs"

text \<open>\<open>node.getAttribute(k)\<close>: \<open>None\<close> is \<open>null\<close>.\<close>

definition getAttribute :: "node \<Rightarrow> string \<Rightarrow> string option" where
  "getAttribute n k = map_of (attributes n) k"

text \<open>\<open>node.textContent\<close>: the text of every text node below the node, in document order.\<close>

fun textContent :: "node \<Rightarrow> string" where
  "textContent (Text t) = t"
| "textContent (Element tg as cs) = concat (map textContent cs)"

text \<open>The nodes below a node, in document order (the node itself is not one of them).\<close>

fun descendants :: "node \<Rightarrow> node list" where
  "descendants (Text t) = []"
| "descendants (Element tg as cs) = concat (map (\<lambda>c. c # descendants c) cs)"

text \<open>
  A selector is a predicate on nodes that holds of elements only.
  \<open>hasTag [''td'', ''th'']\<close> is the selector \<open>td, th\<close>.
\<close>

definition hasTag :: "string list \<Rightarrow> node \<Rightarrow> bool" where
  "hasTag tags n = (isElement n \<and> tagName n \<in> set tags)"

definition querySelectorAll :: "(node \<Rightarrow> bool) \<Rightarrow> node \<Rightarrow> node list" where
  "querySelectorAll sel n = filter sel (descendants n)"

definition querySelector :: "(node \<Rightarrow> bool) \<Rightarrow> node \<Rightarrow> node option" where
  "querySelector sel n = (case querySelectorAll sel n of [] \<Rightarrow> None | x # xs \<Rightarrow> Some x)"

section \<open>convertTableToMarkdown\<close>

definition getCellText :: "node \<Rightarrow> string" where
  "getCellText cell = replaceAllChar (CHR ''|'') [bs, CHR ''|''] (js_trim (textContent cell))"

definition getCellsFromRow :: "node \<Rightarrow> string list" where
  "getCellsFromRow row = map getCellText (querySelectorAll (hasTag [''td'', ''th'']) row)"

definition formatTableRow :: "string list \<Rightarrow> string" where
  "formatTableRow cells = ''| '' @ js_join '' | '' cells @ '' |''"

text \<open>\<open>addHeaderRow\<close> pushes two rows onto \<open>rows\<close>; the model returns the new array.\<close>

definition addHeaderRow :: "string list \<Rightarrow> string list \<Rightarrow> string list" where
  "addHeaderRow rows cells =
     rows @ [formatTableRow cells, formatTableRow (map (\<lambda>c. ''---'') cells)]"

text \<open>The callback of \<open>tbody.querySelectorAll('tr').forEach\<close>, on the array \<open>rows\<close>.\<close>

definition bodyRowStep :: "string list \<Rightarrow> node \<Rightarrow> string list" where
  "bodyRowStep rows row =
     (let cells = getCellsFromRow row
      in if length cells > 0 then rows @ [formatTableRow cells] else rows)"

text \<open>
  The callback of \<open>tableNode.querySelectorAll('tr').forEach\<close>, on the array \<open>rows\<close>
  and the variable \<open>isFirstRow\<close>.
\<close>

definition directRowStep :: "string list \<times> bool \<Rightarrow> node \<Rightarrow> string list \<times> bool" where
  "directRowStep st row =
     (let rows = fst st; isFirstRow = snd st; cells = getCellsFromRow row
      in if length cells > 0
         then (if isFirstRow then (addHeaderRow rows cells, False)
               else (rows @ [formatTableRow cells], isFirstRow))
         else (rows, isFirstRow))"

text \<open>The array \<open>rows\<close> when \<open>convertTableToMarkdown\<close> returns.\<close>

definition tableRows :: "node \<Rightarrow> string list" where
  "tableRows tableNode =
     (let thead = querySelector (hasTag [''thead'']) tableNode;
          tbody = querySelector (hasTag [''tbody'']) tableNode;
          rows1 = (case thead of
                     None \<Rightarrow> []
                   | Some th \<Rightarrow>
                       (case querySelector (hasTag [''tr'']) th of
                          None \<Rightarrow> []
                        | Some headerRow \<Rightarrow> addHeaderRow [] (getCellsFromRow headerRow)))
      in (case tbody of
            Some tb \<Rightarrow> foldl bodyRowStep rows1 (querySelectorAll (hasTag [''tr'']) tb)
          | None \<Rightarrow>
              fst (foldl directRowStep (rows1, thead = None)
                     (querySelectorAll (hasTag [''tr'']) tableNode))))"

definition convertTableToMarkdown :: "node \<Rightarrow> string" where
  "convertTableToMarkdown tableNode = js_join [nl] (tableRows tableNode) @ [nl, nl]"

section \<open>escapeMarkdown\<close>

text \<open>
  A replacement whose pattern starts with \<open>^\<close>, under the flags \<open>gm\<close>: the pattern is tried
  at the start of the string and after every line terminator. None of the anchored
  patterns of \<open>escapeMarkdown\<close> matches a line terminator, so a match stays inside its
  line: \<open>onLines f\<close> cuts the string at its line terminators and rewrites every line
  with \<open>f\<close>, which holds the pattern and its replacement.
\<close>

function onLines :: "(string \<Rightarrow> string) \<Rightarrow> string \<Rightarrow> string" where
  "onLines f s =
     (case dropWhile (\<lambda>c. \<not> isLineTerminator c) s of
        [] \<Rightarrow> f s
      | t # rest \<Rightarrow> f (takeWhile (\<lambda>c. \<not> isLineTerminator c) s) @ t # onLines f rest)"
  by pat_completeness auto

lemma dropWhile_Cons_shorter: "dropWhile P s = t # rest \<Longrightarrow> length rest < length s"
proof -
  assume h: "dropWhile P s = t # rest"
  have "length (dropWhile P s) \<le> length s" by (rule length_dropWhile_le)
  with h show ?thesis by simp
qed

termination onLines
  by (relation "measure (\<lambda>p. length (snd p))") (auto dest: dropWhile_Cons_shorter)

declare onLines.simps [simp del]

text \<open>\<open>/^-/\<close> replaced by \<open>'\\-'\<close>\<close>

definition escLeadingDash :: "string \<Rightarrow> string" where
  "escLeadingDash line =
     (if take 1 line = ''-'' then bs # ''-'' @ drop 1 line else line)"

text \<open>\<open>/^\+ /\<close> replaced by \<open>'\\+ '\<close>\<close>

definition escLeadingPlus :: "string \<Rightarrow> string" where
  "escLeadingPlus line =
     (if take 2 line = ''+ '' then bs # ''+ '' @ drop 2 line else line)"

text \<open>\<open>/^(=+)/\<close> replaced by \<open>'\\$1'\<close>\<close>

definition escLeadingEquals :: "string \<Rightarrow> string" where
  "escLeadingEquals line =
     (let g = takeWhile (\<lambda>c. c = CHR ''='') line
      in if g \<noteq> [] then bs # g @ drop (length g) line else line)"

text \<open>
  \<open>/^(#{1,6}) /\<close> replaced by \<open>'\\$1 '\<close>. The pattern matches when the line starts with
  one to six \<open>#\<close> and then a space; a longer run has no match, since after at most six
  \<open>#\<close> of it the next character is \<open>#\<close>.
\<close>

definition escLeadingHashes :: "string \<Rightarrow> string" where
  "escLeadingHashes line =
     (let g = takeWhile (\<lambda>c. c = CHR ''#'') line
      in if 1 \<le> length g \<and> length g \<le> 6 \<and> take 1 (drop (length g) line) = '' ''
         then bs # g @ '' '' @ drop (length g + 1) line else line)"

text \<open>\<open>/^>/\<close> replaced by \<open>'\\>'\<close>\<close>

definition escLeadingGt :: "string \<Rightarrow> string" where
  "escLeadingGt line =
     (if take 1 line = ''>'' then bs # ''>'' @ drop 1 line else line)"

text \<open>\<open>/^(\d+)\. /\<close> replaced by \<open>'$1\\. '\<close>\<close>

definition escLeadingNumber :: "string \<Rightarrow> string" where
  "escLeadingNumber line =
     (let g = takeWhile isDigit line
      in if g \<noteq> [] \<and> take 2 (drop (length g) line) = ''. ''
         then g @ bs # ''. '' @ drop (length g + 2) line else line)"

definition escapeMarkdown :: "string \<Rightarrow> string" where
  "escapeMarkdown text0 =
     (let t1 = replaceAllChar bs [bs, bs] text0;
          t2 = replaceAllChar (CHR ''*'') [bs, CHR ''*''] t1;
          t3 = onLines escLeadingDash t2;
          t4 = onLines escLeadingPlus t3;
          t5 = onLines escLeadingEquals t4;
          t6 = onLines escLeadingHashes t5;
          t7 = replaceAllChar bt [bs, bt] t6;
          t8 = replaceAllChar (CHR ''['') [bs, CHR ''[''] t7;
          t9 = replaceAllChar (CHR '']'') [bs, CHR '']''] t8;
          t10 = onLines escLeadingGt t9;
          t11 = replaceAllChar (CHR ''_'') [bs, CHR ''_''] t10;
          t12 = onLines escLeadingNumber t11
      in t12)"

section \<open>collapseWhitespace\<close>

text \<open>\<open>s.replace(/[...]+/g, r)\<close>: every maximal run of characters of the class becomes \<open>r\<close>.\<close>

function collapseRuns :: "(char \<Rightarrow> bool) \<Rightarrow> string \<Rightarrow> string \<Rightarrow> string" where
  "collapseRuns p r [] = []"
| "collapseRuns p r (c # cs) =
     (if p c then r @ collapseRuns p r (dropWhile p cs) else c # collapseRuns p r cs)"
  by pat_completeness auto

termination collapseRuns
  by (relation "measure (\<lambda>p. length (snd (snd p)))")
     (auto simp: less_Suc_eq_le length_dropWhile_le)

text \<open>\<open>s.replace(/\n{3,}/g, '\n\n')\<close>: a run of three or more line feeds becomes two.\<close>

function capNewlines :: "string \<Rightarrow> string" where
  "capNewlines [] = []"
| "capNewlines (c # cs) =
     (if c = nl
      then (let run = c # takeWhile (\<lambda>x. x = nl) cs
            in (if 3 \<le> length run then [nl, nl] else run)
               @ capNewlines (dropWhile (\<lambda>x. x = nl) cs))
      else c # capNewlines cs)"
  by pat_completeness auto

termination capNewlines
  by (relation "measure length") (auto simp: less_Suc_eq_le length_dropWhile_le)

definition collapseWhitespace :: "string \<Rightarrow> bool \<Rightarrow> string" where
  "collapseWhitespace text0 preserveNewlines =
     (if preserveNewlines
      then capNewlines (collapseRuns (\<lambda>c. c = CHR '' '' \<or> c = CHR 0x09) '' '' text0)
      else collapseRuns (\<lambda>c. c = CHR '' '' \<or> c = CHR 0x09 \<or> c = cr \<or> c = nl) '' '' text0)"

section \<open>isBlank and isInsideListItem\<close>

text \<open>\<open>/^\s*$/.test(node.textContent)\<close>, without the flag \<open>m\<close>: every character is in \<open>\s\<close>.\<close>

definition isBlank :: "node \<Rightarrow> bool" where
  "isBlank n =
     (isElement n \<and>
      querySelector (hasTag [''img'', ''hr'', ''br'', ''table'']) n = None \<and>
      list_all isSpace (textContent n))"

text \<open>
  Where a node stands in its tree: its ancestors, the nearest first, each with the
  index of the branch among its child nodes. The root of a tree (a node that
  \<open>cloneNode\<close> returned, which has no parent) stands at \<open>[]\<close>.
\<close>

type_synonym position = "(node \<times> nat) list"

text \<open>\<open>node.parentElement\<close>\<close>

fun parentElement :: "position \<Rightarrow> node option" where
  "parentElement [] = None"
| "parentElement ((p, i) # up) = Some p"

text \<open>\<open>node.nextSibling\<close>\<close>

fun nextSibling :: "position \<Rightarrow> node option" where
  "nextSibling [] = None"
| "nextSibling ((p, i) # up) =
     (if Suc i < length (childNodes p) then Some (childNodes p ! Suc i) else None)"

text \<open>
  \<open>[...parent.children].indexOf(node)\<close> for an element \<open>node\<close> with a parent: the number
  of elements among the child nodes before it.
\<close>

fun indexInChildren :: "position \<Rightarrow> nat" where
  "indexInChildren [] = 0"
| "indexInChildren ((p, i) # up) = length (filter isElement (take i (childNodes p)))"

fun isInsideListItem :: "position \<Rightarrow> bool" where
  "isInsideListItem [] = False"
| "isInsideListItem ((p, i) # up) = (tagName p = ''li'' \<or> isInsideListItem up)"

section \<open>processNode\<close>

record options =
  isCode :: bool
  noEscape :: bool

text \<open>
  The selector \<open>input[type="checkbox"]\<close>. In an HTML document an attribute selector
  compares the value of \<open>type\<close> without regard to ASCII case.
\<close>

definition asciiLower :: "char \<Rightarrow> char" where
  "asciiLower c =
     (case map_of (zip ''ABCDEFGHIJKLMNOPQRSTUVWXYZ'' ''abcdefghijklmnopqrstuvwxyz'') c of
        Some l \<Rightarrow> l
      | None \<Rightarrow> c)"

definition isCheckbox :: "node \<Rightarrow> bool" where
  "isCheckbox n =
     (hasTag [''input''] n \<and>
      (case getAttribute n ''type'' of
         None \<Rightarrow> False
       | Some v \<Rightarrow> map asciiLower v = ''checkbox''))"

text \<open>
  \<open>forest.querySelector(sel)?.remove()\<close> on the child nodes of a copy: the first node in
  document order that the selector matches is taken out with everything below it.
  \<open>None\<close> when the selector matches nothing.
\<close>

fun removeFirst :: "(node \<Rightarrow> bool) \<Rightarrow> node list \<Rightarrow> node list option" where
  "removeFirst sel [] = None"
| "removeFirst sel (Text t # ns) = map_option ((#) (Text t)) (removeFirst sel ns)"
| "removeFirst sel (Element tg as cs # ns) =
     (if sel (Element tg as cs) then Some ns
      else (case removeFirst sel cs of
              Some cs' \<Rightarrow> Some (Element tg as cs' # ns)
            | None \<Rightarrow> map_option ((#) (Element tg as cs)) (removeFirst sel ns)))"

text \<open>
  \<open>liClone\<close>: \<open>node.cloneNode(true)\<close> after
  \<open>liClone.querySelector('input[type="checkbox"]')?.remove()\<close>.
\<close>

definition liClone :: "node \<Rightarrow> node" where
  "liClone n =
     (case removeFirst isCheckbox (childNodes n) of
        None \<Rightarrow> n
      | Some cs' \<Rightarrow> Element (tagName n) (attributes n) cs')"

text \<open>Decimal numerals: the digits of a natural number, and the number a digit string denotes.\<close>

fun showNat :: "nat \<Rightarrow> string" where
  "showNat n =
     (if n < 10 then [''0123456789'' ! n]
      else showNat (n div 10) @ [''0123456789'' ! (n mod 10)])"

declare showNat.simps [simp del]

definition digitValue :: "char \<Rightarrow> nat" where
  "digitValue c = length (takeWhile (\<lambda>d. d \<noteq> c) ''0123456789'')"

definition decimalValue :: "string \<Rightarrow> nat" where
  "decimalValue s = foldl (\<lambda>a c. 10 * a + digitValue c) 0 s"

text \<open>
  The text of \<open>Number(start) + index\<close> in the template literal of the marker, for a
  non-empty \<open>start\<close>. When \<open>start\<close> is a string of decimal digits and the sum is at most
  \<open>2^53 - 1\<close>, the sum is exact and prints as its decimal numeral. Every other \<open>start\<close>
  (a sign, a fraction, an exponent, a radix prefix, white space, \<open>NaN\<close>) is IEEE 754
  arithmetic: there the text is the parameter \<open>other\<close>.
\<close>

definition numberPlusIndex :: "(string \<Rightarrow> nat \<Rightarrow> string) \<Rightarrow> string \<Rightarrow> nat \<Rightarrow> string" where
  "numberPlusIndex other start index =
     (if start \<noteq> [] \<and> list_all isDigit start \<and> decimalValue start + index \<le> 9007199254740991
      then showNat (decimalValue start + index)
      else other start index)"

text \<open>
  \<open>className.match(/language-(\S+)/)?.[1]\<close>: the first place where \<open>language-\<close> stands
  before a character outside \<open>\s\<close>; the group is the run of such characters.
\<close>

fun matchLanguage :: "string \<Rightarrow> string option" where
  "matchLanguage [] = None"
| "matchLanguage (c # cs) =
     (let s = c # cs; r = drop 9 s
      in if take 9 s = ''language-'' \<and> takeWhile (\<lambda>x. \<not> isSpace x) r \<noteq> []
         then Some (takeWhile (\<lambda>x. \<not> isSpace x) r)
         else matchLanguage cs)"

text \<open>\<open>s.replace(/\r?\n|\r/g, ' ')\<close>\<close>

fun lineBreaksToSpaces :: "string \<Rightarrow> string" where
  "lineBreaksToSpaces [] = []"
| "lineBreaksToSpaces [c] = (if c = nl \<or> c = cr then '' '' else [c])"
| "lineBreaksToSpaces (c # d # cs) =
     (if c = cr \<and> d = nl then CHR '' '' # lineBreaksToSpaces cs
      else if c = nl \<or> c = cr then CHR '' '' # lineBreaksToSpaces (d # cs)
      else c # lineBreaksToSpaces (d # cs))"

text \<open>\<open>s.replace(/^\n+/, '')\<close> and \<open>s.replace(/\n+$/, '\n')\<close>, without the flag \<open>m\<close>.\<close>

definition dropLeadingNewlines :: "string \<Rightarrow> string" where
  "dropLeadingNewlines s = dropWhile (\<lambda>c. c = nl) s"

definition capTrailingNewlines :: "string \<Rightarrow> string" where
  "capTrailingNewlines s =
     (if s \<noteq> [] \<and> last s = nl then rev (dropWhile (\<lambda>c. c = nl) (rev s)) @ [nl] else s)"

text \<open>\<open>/\n$/.test(s)\<close>\<close>

definition endsWithNewline :: "string \<Rightarrow> bool" where
  "endsWithNewline s = (s \<noteq> [] \<and> last s = nl)"

text \<open>
  The case \<open>li\<close> of the switch, in the parts the source comments name. The task list
  prefix, from the first checkbox below the item:
\<close>

definition taskListPrefix :: "node \<Rightarrow> string" where
  "taskListPrefix n =
     (case querySelector isCheckbox n of
        None \<Rightarrow> []
      | Some checkbox \<Rightarrow>
          if getAttribute checkbox ''checked'' \<noteq> None then ''[x] '' else ''[ ] '')"

text \<open>
  The content: leading line feeds removed, trailing ones replaced by one, and every
  line after the first indented by two spaces.
\<close>

definition listItemContent :: "string \<Rightarrow> string" where
  "listItemContent liContent =
     (let content = capTrailingNewlines (dropLeadingNewlines liContent);
          lines = js_split content
      in if length lines > 1
         then hd lines @ [nl] @ js_join [nl] (map (\<lambda>line. ''  '' @ line) (tl lines))
         else content)"

text \<open>The prefix (the marker), from the parent of the item at \<open>pos\<close>.\<close>

definition listItemPrefix :: "(string \<Rightarrow> nat \<Rightarrow> string) \<Rightarrow> position \<Rightarrow> string" where
  "listItemPrefix other pos =
     (case parentElement pos of
        None \<Rightarrow> ''- ''
      | Some parent \<Rightarrow>
          if tagName parent = ''ol''
          then (let start = getAttribute parent ''start'';
                    index = indexInChildren pos
                in (case start of
                      None \<Rightarrow> showNat (index + 1)
                    | Some st \<Rightarrow>
                        if st \<noteq> [] then numberPlusIndex other st index
                        else showNat (index + 1)) @ ''. '')
          else ''- '')"

text \<open>
  The value the case returns, after \<open>liContent\<close> has been rendered from the children of
  \<open>liClone\<close>. \<open>pos\<close> is the position of the item itself.
\<close>

definition renderListItem ::
  "(string \<Rightarrow> nat \<Rightarrow> string) \<Rightarrow> position \<Rightarrow> node \<Rightarrow> string \<Rightarrow> string" where
  "renderListItem other pos n liContent =
     (let content = listItemContent liContent
      in listItemPrefix other pos @ taskListPrefix n @ content @
         (if nextSibling pos \<noteq> None \<and> \<not> endsWithNewline content then [nl] else []))"

text \<open>
  The other cases of the switch, for an element that is not a list item, from the
  rendered children \<open>childContent\<close>.
\<close>

definition renderElement :: "position \<Rightarrow> node \<Rightarrow> string \<Rightarrow> string" where
  "renderElement pos n childContent =
     (let tag = tagName n in
      if tag \<in> set [''h1'', ''h2'', ''h3'', ''h4'', ''h5'', ''h6'']
      then replicate (digitValue (tag ! 1)) (CHR ''#'') @ '' '' @ js_trim childContent @ [nl, nl]
      else if tag = ''p''
      then (if isInsideListItem pos then js_trim childContent
            else js_trim childContent @ [nl, nl])
      else if tag = ''strong'' \<or> tag = ''b''
      then (if js_trim childContent \<noteq> [] then ''**'' @ childContent @ ''**'' else [])
      else if tag = ''em'' \<or> tag = ''i''
      then (if js_trim childContent \<noteq> [] then ''*'' @ childContent @ ''*'' else [])
      else if tag = ''s'' \<or> tag = ''del'' \<or> tag = ''strike''
      then (if js_trim childContent \<noteq> [] then ''~~'' @ childContent @ ''~~'' else [])
      else if tag = ''sup''
      then (if js_trim childContent \<noteq> [] then ''<sup>'' @ childContent @ ''</sup>'' else [])
      else if tag = ''sub''
      then (if js_trim childContent \<noteq> [] then ''<sub>'' @ childContent @ ''</sub>'' else [])
      else if tag = ''code''
      then (if map_option tagName (parentElement pos) = Some ''pre'' then childContent
            else if childContent = [] then []
            else (let inlineCode = lineBreaksToSpaces childContent;
                      hasBacktick = (bt \<in> set inlineCode);
                      delimiter = (if hasBacktick then [bt, bt] else [bt]);
                      extraSpace =
                        (if hd inlineCode = bt \<or> hd inlineCode = CHR '' '' \<or>
                            last inlineCode = bt \<or> last inlineCode = CHR '' ''
                         then '' '' else [])
                  in delimiter @ extraSpace @ inlineCode @ extraSpace @ delimiter))
      else if tag = ''pre''
      then (let codeElement = querySelector (hasTag [''code'']) n;
                className =
                  (case codeElement of
                     None \<Rightarrow> []
                   | Some ce \<Rightarrow> (case getAttribute ce ''class'' of None \<Rightarrow> [] | Some v \<Rightarrow> v));
                language = (case matchLanguage className of None \<Rightarrow> [] | Some l \<Rightarrow> l);
                code = (case codeElement of None \<Rightarrow> childContent | Some ce \<Rightarrow> textContent ce)
            in [bt, bt, bt] @ language @ [nl] @ js_trim code @ [nl] @ [bt, bt, bt] @ [nl, nl])
      else if tag = ''ul'' \<or> tag = ''ol''
      then (if js_trim childContent = [] then []
            else if isInsideListItem pos
            then [nl] @ js_join [nl] (map (\<lambda>line. ''  '' @ line) (js_split (js_trim childContent)))
                 @ [nl]
            else [nl] @ childContent @ [nl])
      else if tag = ''blockquote''
      then js_join [nl] (map (\<lambda>line. ''> '' @ line) (js_split (js_trim childContent))) @ [nl, nl]
      else if tag = ''hr''
      then ''---'' @ [nl, nl]
      else if tag = ''a''
      then (case getAttribute n ''href'' of
              None \<Rightarrow> childContent
            | Some href \<Rightarrow>
                if href = [] then childContent
                else (let titlePart =
                            (case getAttribute n ''title'' of
                               None \<Rightarrow> []
                             | Some title \<Rightarrow>
                                 if title = [] then []
                                 else '' '' @ [dq] @ replaceAllChar dq [bs, dq] title @ [dq])
                      in ''['' @ childContent @ ''](''  @ href @ titlePart @ '')''))
      else if tag = ''img''
      then (case getAttribute n ''src'' of
              None \<Rightarrow> []
            | Some src \<Rightarrow>
                if src = [] then []
                else (let alt = (case getAttribute n ''alt'' of None \<Rightarrow> [] | Some v \<Rightarrow> v);
                          imgTitlePart =
                            (case getAttribute n ''title'' of
                               None \<Rightarrow> []
                             | Some title \<Rightarrow>
                                 if title = [] then []
                                 else '' '' @ [dq] @ replaceAllChar dq [bs, dq] title @ [dq])
                      in ''!['' @ alt @ ''](''  @ src @ imgTitlePart @ '')''))
      else if tag = ''br''
      then [nl]
      else if tag = ''table''
      then convertTableToMarkdown n
      else childContent)"

lemma removeFirst_size:
  "removeFirst sel ns = Some ns' \<Longrightarrow> size_list size ns' < size_list size ns"
proof (induction sel ns arbitrary: ns' rule: removeFirst.induct)
  case (1 sel)
  then show ?case by simp
next
  case (2 sel t ns)
  from 2(2) obtain z where z: "removeFirst sel ns = Some z" and n: "ns' = Text t # z"
    by auto
  from 2(1)[OF z] n show ?case by simp
next
  case (3 sel tg as cs ns)
  show ?case
  proof (cases "sel (Element tg as cs)")
    case True
    with 3(3) show ?thesis by simp
  next
    case False
    show ?thesis
    proof (cases "removeFirst sel cs")
      case None
      with False 3(3) obtain z where z: "removeFirst sel ns = Some z"
        and n: "ns' = Element tg as cs # z" by auto
      from 3(2)[OF False None z] n show ?thesis by simp
    next
      case (Some cs')
      with False 3(3) have n: "ns' = Element tg as cs' # ns" by simp
      from 3(1)[OF False Some] n show ?thesis by simp
    qed
  qed
qed

lemma liClone_size: "size (liClone n) \<le> size n"
proof (cases n)
  case (Text t)
  then show ?thesis by (simp add: liClone_def)
next
  case (Element tg as cs)
  show ?thesis
  proof (cases "removeFirst isCheckbox cs")
    case None
    with Element show ?thesis by (simp add: liClone_def)
  next
    case (Some cs')
    from removeFirst_size[OF Some] Element Some show ?thesis by (simp add: liClone_def)
  qed
qed

lemma child_size: "i < length cs \<Longrightarrow> size (cs ! i) < Suc (size_list size cs)"
proof -
  assume "i < length cs"
  then have "cs ! i \<in> set cs" by simp
  then have "size (cs ! i) \<le> size_list size cs" by (rule size_list_estimation') simp
  then show ?thesis by simp
qed

lemma childNodes_size: "i < length (childNodes n) \<Longrightarrow> size (childNodes n ! i) < size n"
  by (cases n) (simp_all add: child_size)

lemma liClone_child_size:
  assumes "i < length (childNodes (liClone n))"
  shows "size (childNodes (liClone n) ! i) < size n"
proof -
  have "size (childNodes (liClone n) ! i) < size (liClone n)"
    using assms by (rule childNodes_size)
  also have "\<dots> \<le> size n" by (rule liClone_size)
  finally show ?thesis .
qed

text \<open>
  \<open>processNode(node, {isCode, noEscape})\<close> for the node at \<open>pos\<close>. The children are
  rendered before the switch. The case \<open>li\<close> renders the children of \<open>liClone\<close> and
  returns from that rendering only; \<open>liClone\<close> is the root of its own tree.
\<close>

function processNode ::
  "(string \<Rightarrow> nat \<Rightarrow> string) \<Rightarrow> options \<Rightarrow> position \<Rightarrow> node \<Rightarrow> string" where
  "processNode other opts pos (Text t) =
     (let text0 = (if isCode opts then t else collapseWhitespace t False)
      in if isCode opts \<or> noEscape opts then text0 else escapeMarkdown text0)"
| "processNode other opts pos (Element tg as cs) =
     (let n = Element tg as cs in
      if isBlank n then []
      else (let isCodeContext = (isCode opts \<or> tg = ''code'' \<or> tg = ''pre'');
                childOpts = opts\<lparr>isCode := isCodeContext \<and> tg \<noteq> ''pre''\<rparr>;
                childContent =
                  concat (map (\<lambda>i. processNode other childOpts ((n, i) # pos) (cs ! i))
                            [0..<length cs])
            in if tg = ''li''
               then (let clone = liClone n;
                         liContent =
                           concat (map (\<lambda>i. processNode other opts [(clone, i)]
                                              (childNodes clone ! i))
                                     [0..<length (childNodes clone)])
                     in renderListItem other pos n liContent)
               else renderElement pos n childContent))"
  by pat_completeness auto

termination processNode
proof (relation "measure (\<lambda>p. size (snd (snd (snd p))))", goal_cases)
  case 1
  show ?case by simp
next
  case (2 other opts pos tg as cs n isCodeContext childOpts i)
  from 2 have "i < length cs" by simp
  then have "size (cs ! i) < Suc (size_list size cs)" by (rule child_size)
  then show ?case by simp
next
  case (3 other opts pos tg as cs n isCodeContext childOpts childContent clone i)
  from 3 have "i < length (childNodes (liClone n))" by simp
  then have "size (childNodes (liClone n) ! i) < size n" by (rule liClone_child_size)
  with 3 show ?case by simp
qed

declare processNode.simps [simp del]

text \<open>A sample for the parameter of \<open>numberPlusIndex\<close>: the text of \<open>NaN\<close>.\<close>

definition nanText :: "string \<Rightarrow> nat \<Rightarrow> string" where
  "nanText start index = ''NaN''"

text \<open>
  \<open>[...node.childNodes].map(child => processNode(child, opts)).join('')\<close>, for the
  node \<open>n\<close> at \<open>pos\<close>.
\<close>

definition renderChildren ::
  "(string \<Rightarrow> nat \<Rightarrow> string) \<Rightarrow> options \<Rightarrow> position \<Rightarrow> node \<Rightarrow> string" where
  "renderChildren other opts pos n =
     concat (map (\<lambda>i. processNode other opts ((n, i) # pos) (childNodes n ! i))
               [0..<length (childNodes n)])"

text \<open>The options the children of an element with tag \<open>tg\<close> are rendered under.\<close>

definition childOptions :: "options \<Rightarrow> string \<Rightarrow> options" where
  "childOptions opts tg =
     opts\<lparr>isCode := (isCode opts \<or> tg = ''code'' \<or> tg = ''pre'') \<and> tg \<noteq> ''pre''\<rparr>"

section \<open>Reading escapes back\<close>

text \<open>
  How Markdown reads the backslash escapes that \<open>escapeMarkdown\<close> writes: a backslash
  makes the character after it literal. This is the reader the escaping is written
  for; it is not part of the source.
\<close>

fun unescape :: "string \<Rightarrow> string" where
  "unescape [] = []"
| "unescape [c] = [c]"
| "unescape (c # d # cs) = (if c = bs then d # unescape cs else c # unescape (d # cs))"

text \<open>
  A text in which every backslash escapes a character of \<open>S\<close>: read from the left, no
  backslash is left over at the end and every escaped character is in \<open>S\<close>.
\<close>

fun wellEscaped :: "char set \<Rightarrow> string \<Rightarrow> bool" where
  "wellEscaped S [] = True"
| "wellEscaped S [c] = (c \<noteq> bs)"
| "wellEscaped S (c # d # cs) =
     (if c = bs then d \<in> S \<and> wellEscaped S cs else wellEscaped S (d # cs))"

section \<open>The escaping in one pass\<close>

text \<open>
  The escaping as the specification words it, rule by rule, written as one pass over
  each line; it is compared with the twelve replacements of the source below.
  \<open>escapeSet S\<close> puts a backslash before every character of \<open>S\<close>.
\<close>

definition escapeSet :: "char set \<Rightarrow> string \<Rightarrow> string" where
  "escapeSet S s = concat (map (\<lambda>c. if c \<in> S then [bs, c] else [c]) s)"

text \<open>A line that starts with one to six \<open>#\<close> and then a space.\<close>

definition hashHeading :: "string \<Rightarrow> bool" where
  "hashHeading line =
     (let k = length (takeWhile (\<lambda>c. c = CHR ''#'') line)
      in 1 \<le> k \<and> k \<le> 6 \<and> take 1 (dropWhile (\<lambda>c. c = CHR ''#'') line) = '' '')"

text \<open>A line that starts with digits and then a dot and a space.\<close>

definition numberedItem :: "string \<Rightarrow> bool" where
  "numberedItem line =
     (takeWhile isDigit line \<noteq> [] \<and> take 2 (dropWhile isDigit line) = ''. '')"

text \<open>
  A line that starts with \<open>-\<close>, with \<open>+\<close> and a space, with \<open>=\<close>, as a heading does, or
  with \<open>>\<close>.
\<close>

definition lineLeader :: "string \<Rightarrow> bool" where
  "lineLeader line =
     (take 1 line = ''-'' \<or> take 2 line = ''+ '' \<or> take 1 line = ''='' \<or>
      hashHeading line \<or> take 1 line = ''>'')"

text \<open>The characters escaped wherever they stand: backslash, star, backtick, brackets, underscore.\<close>

definition escapeChars :: "string \<Rightarrow> string" where
  "escapeChars s = escapeSet {bs, CHR ''*'', bt, CHR ''['', CHR '']'', CHR ''_''} s"

text \<open>
  One line: a backslash before a leader, or before the dot of a numbered item, and
  every character of \<open>escapeChars\<close> escaped.
\<close>

definition escapeLine :: "string \<Rightarrow> string" where
  "escapeLine line =
     (if lineLeader line then bs # escapeChars line
      else if numberedItem line
      then takeWhile isDigit line @ bs # escapeChars (dropWhile isDigit line)
      else escapeChars line)"

text \<open>
  The whole text: \<open>line\<close> holds the current line in reverse; a line terminator ends the
  line and stays as it is.
\<close>

fun escapeSpecAcc :: "string \<Rightarrow> string \<Rightarrow> string" where
  "escapeSpecAcc line [] = escapeLine (rev line)"
| "escapeSpecAcc line (c # cs) =
     (if isLineTerminator c then escapeLine (rev line) @ c # escapeSpecAcc [] cs
      else escapeSpecAcc (c # line) cs)"

definition escapeSpec :: "string \<Rightarrow> string" where
  "escapeSpec s = escapeSpecAcc [] s"

text \<open>
  A function on texts that works line by line: it keeps a line a line, and it rewrites
  a text cut at a line terminator piece by piece.
\<close>

definition lineWise :: "(string \<Rightarrow> string) \<Rightarrow> bool" where
  "lineWise F =
     (\<forall>l. (\<forall>c \<in> set l. \<not> isLineTerminator c) \<longrightarrow>
          (\<forall>c \<in> set (F l). \<not> isLineTerminator c) \<and>
          (\<forall>t rest. isLineTerminator t \<longrightarrow> F (l @ t # rest) = F l @ t # F rest))"

section \<open>Properties\<close>

lemmas dom_defs = querySelector_def querySelectorAll_def hasTag_def getAttribute_def

lemmas table_defs = convertTableToMarkdown_def tableRows_def addHeaderRow_def
  getCellsFromRow_def getCellText_def formatTableRow_def bodyRowStep_def directRowStep_def
  js_trim_def isSpace_def replaceAllChar_def

lemma processNode_Text:
  "processNode other opts pos (Text t) =
     (if isCode opts then t
      else if noEscape opts then collapseWhitespace t False
      else escapeMarkdown (collapseWhitespace t False))"
  by (simp add: processNode.simps)

lemma processNode_Element:
  "processNode other opts pos (Element tg as cs) =
     (if isBlank (Element tg as cs) then []
      else if tg = ''li''
      then renderListItem other pos (Element tg as cs)
             (renderChildren other opts [] (liClone (Element tg as cs)))
      else renderElement pos (Element tg as cs)
             (renderChildren other (childOptions opts tg) pos (Element tg as cs)))"
  by (simp add: processNode.simps renderChildren_def childOptions_def Let_def)

lemmas node_defs = processNode_Element processNode_Text renderChildren_def childOptions_def
  isBlank_def renderElement_def renderListItem_def taskListPrefix_def listItemContent_def
  listItemPrefix_def liClone_def isCheckbox_def asciiLower_def dropLeadingNewlines_def
  capTrailingNewlines_def endsWithNewline_def

subsection \<open>Tables\<close>

lemma foldl_directRowStep_later:
  "foldl directRowStep (rows, False) trs =
     (rows @ map formatTableRow (filter (\<lambda>cells. cells \<noteq> []) (map getCellsFromRow trs)), False)"
  by (induction trs arbitrary: rows) (simp_all add: directRowStep_def Let_def)

lemma foldl_directRowStep_first:
  "foldl directRowStep (rows, True) trs =
     (case filter (\<lambda>cells. cells \<noteq> []) (map getCellsFromRow trs) of
        [] \<Rightarrow> (rows, True)
      | h # rest \<Rightarrow> (addHeaderRow rows h @ map formatTableRow rest, False))"
  by (induction trs arbitrary: rows)
     (simp_all add: directRowStep_def Let_def foldl_directRowStep_later)

lemma foldl_bodyRowStep:
  "foldl bodyRowStep rows trs =
     rows @ map formatTableRow (filter (\<lambda>cells. cells \<noteq> []) (map getCellsFromRow trs))"
  by (induction trs arbitrary: rows) (simp_all add: bodyRowStep_def Let_def)

text \<open>
  C1. The table with the head row A, B and the body rows 1, 2 and 3, 4 renders as the
  header row, the separator row, one line for each body row, and a blank line after
  the last row. For every table with a head section that has a row and with a body
  section: the first row of the head section gives the header, each cell trimmed, the
  cells joined with \<open> | \<close> between \<open>| \<close> and \<open> |\<close>; the separator has one \<open>---\<close> for each
  header cell; every row of the body section that has a cell gives one line.
\<close>

theorem C1_table_round_trip:
  "convertTableToMarkdown
     (Element ''table'' []
        [Element ''thead'' []
           [Element ''tr'' [] [Element ''th'' [] [Text ''A''], Element ''th'' [] [Text ''B'']]],
         Element ''tbody'' []
           [Element ''tr'' [] [Element ''td'' [] [Text ''1''], Element ''td'' [] [Text ''2'']],
            Element ''tr'' [] [Element ''td'' [] [Text ''3''], Element ''td'' [] [Text ''4'']]]])
   = ''| A | B |'' @ [nl] @
     ''| --- | --- |'' @ [nl] @
     ''| 1 | 2 |'' @ [nl] @
     ''| 3 | 4 |'' @ [nl, nl] \<and>
   (querySelector (hasTag [''thead'']) t = Some th \<and>
    querySelector (hasTag [''tr'']) th = Some headerRow \<and>
    querySelector (hasTag [''tbody'']) t = Some tb \<longrightarrow>
    convertTableToMarkdown t =
      js_join [nl]
        (formatTableRow (getCellsFromRow headerRow) #
         formatTableRow (replicate (length (getCellsFromRow headerRow)) ''---'') #
         map formatTableRow
           (filter (\<lambda>cells. cells \<noteq> [])
              (map getCellsFromRow (querySelectorAll (hasTag [''tr'']) tb))))
      @ [nl, nl])"
proof (intro conjI impI)
  show "convertTableToMarkdown
     (Element ''table'' []
        [Element ''thead'' []
           [Element ''tr'' [] [Element ''th'' [] [Text ''A''], Element ''th'' [] [Text ''B'']]],
         Element ''tbody'' []
           [Element ''tr'' [] [Element ''td'' [] [Text ''1''], Element ''td'' [] [Text ''2'']],
            Element ''tr'' [] [Element ''td'' [] [Text ''3''], Element ''td'' [] [Text ''4'']]]])
   = ''| A | B |'' @ [nl] @
     ''| --- | --- |'' @ [nl] @
     ''| 1 | 2 |'' @ [nl] @
     ''| 3 | 4 |'' @ [nl, nl]"
    by (simp add: dom_defs table_defs)
next
  assume "querySelector (hasTag [''thead'']) t = Some th \<and>
    querySelector (hasTag [''tr'']) th = Some headerRow \<and>
    querySelector (hasTag [''tbody'']) t = Some tb"
  then show "convertTableToMarkdown t =
      js_join [nl]
        (formatTableRow (getCellsFromRow headerRow) #
         formatTableRow (replicate (length (getCellsFromRow headerRow)) ''---'') #
         map formatTableRow
           (filter (\<lambda>cells. cells \<noteq> [])
              (map getCellsFromRow (querySelectorAll (hasTag [''tr'']) tb))))
      @ [nl, nl]"
    by (simp add: convertTableToMarkdown_def tableRows_def foldl_bodyRowStep addHeaderRow_def
        map_replicate_const)
qed

theorem C1_witness:
  "querySelector (hasTag [''thead''])
     (Element ''table'' []
        [Element ''thead'' []
           [Element ''tr'' [] [Element ''th'' [] [Text '' A ''], Element ''th'' [] [Text ''B|C'']]],
         Element ''tbody'' []
           [Element ''tr'' [] [Element ''td'' [] [Text ''1''], Element ''td'' [] [Text ''2'']]]])
     = Some (Element ''thead'' []
           [Element ''tr'' [] [Element ''th'' [] [Text '' A ''], Element ''th'' [] [Text ''B|C'']]]) \<and>
   convertTableToMarkdown
     (Element ''table'' []
        [Element ''thead'' []
           [Element ''tr'' [] [Element ''th'' [] [Text '' A ''], Element ''th'' [] [Text ''B|C'']]],
         Element ''tbody'' []
           [Element ''tr'' [] [Element ''td'' [] [Text ''1''], Element ''td'' [] [Text ''2'']]]])
   = ''| A | B'' @ [bs] @ ''|C |'' @ [nl] @ ''| --- | --- |'' @ [nl] @ ''| 1 | 2 |'' @ [nl, nl]"
  using C1_table_round_trip [of
      "Element ''table'' []
        [Element ''thead'' []
           [Element ''tr'' [] [Element ''th'' [] [Text '' A ''], Element ''th'' [] [Text ''B|C'']]],
         Element ''tbody'' []
           [Element ''tr'' [] [Element ''td'' [] [Text ''1''], Element ''td'' [] [Text ''2'']]]]"
      "Element ''thead'' []
           [Element ''tr'' [] [Element ''th'' [] [Text '' A ''], Element ''th'' [] [Text ''B|C'']]]"
      "Element ''tr'' [] [Element ''th'' [] [Text '' A ''], Element ''th'' [] [Text ''B|C'']]"
      "Element ''tbody'' []
           [Element ''tr'' [] [Element ''td'' [] [Text ''1''], Element ''td'' [] [Text ''2'']]]"]
  by (simp add: dom_defs getCellsFromRow_def getCellText_def formatTableRow_def js_trim_def
      isSpace_def replaceAllChar_def)

text \<open>
  C8. A table without a body section: the rows of the whole table are taken directly,
  rows without cells are skipped; when no head section was found the first remaining
  row gives the header and the separator and the later rows are data rows; when a head
  section was found every remaining row is a data row, after the header the head
  section gave.
\<close>

theorem C8_rows_without_body_section:
  assumes "querySelector (hasTag [''tbody'']) t = None"
  shows "convertTableToMarkdown t =
     js_join [nl]
       (let R = filter (\<lambda>cells. cells \<noteq> [])
                  (map getCellsFromRow (querySelectorAll (hasTag [''tr'']) t))
        in case querySelector (hasTag [''thead'']) t of
             None \<Rightarrow>
               (case R of
                  [] \<Rightarrow> []
                | h # rest \<Rightarrow>
                    formatTableRow h # formatTableRow (map (\<lambda>c. ''---'') h)
                      # map formatTableRow rest)
           | Some th \<Rightarrow>
               (case querySelector (hasTag [''tr'']) th of
                  None \<Rightarrow> []
                | Some headerRow \<Rightarrow>
                    [formatTableRow (getCellsFromRow headerRow),
                     formatTableRow (map (\<lambda>c. ''---'') (getCellsFromRow headerRow))])
               @ map formatTableRow R)
     @ [nl, nl]"
proof (cases "querySelector (hasTag [''thead'']) t")
  case None
  with assms show ?thesis
    by (simp add: convertTableToMarkdown_def tableRows_def foldl_directRowStep_first
        addHeaderRow_def Let_def split: list.splits)
next
  case (Some th)
  with assms show ?thesis
    by (simp add: convertTableToMarkdown_def tableRows_def foldl_directRowStep_later
        addHeaderRow_def Let_def split: option.splits)
qed

theorem C8_witness:
  "querySelector (hasTag [''tbody''])
     (Element ''table'' []
        [Element ''tr'' [] [Element ''td'' [] [Text ''a''], Element ''td'' [] [Text ''b'']],
         Element ''tr'' [] [],
         Element ''tr'' [] [Element ''td'' [] [Text ''c''], Element ''td'' [] [Text ''d'']]]) = None
   \<and> convertTableToMarkdown
     (Element ''table'' []
        [Element ''tr'' [] [Element ''td'' [] [Text ''a''], Element ''td'' [] [Text ''b'']],
         Element ''tr'' [] [],
         Element ''tr'' [] [Element ''td'' [] [Text ''c''], Element ''td'' [] [Text ''d'']]])
     = ''| a | b |'' @ [nl] @ ''| --- | --- |'' @ [nl] @ ''| c | d |'' @ [nl, nl]"
proof -
  let ?t = "Element ''table'' []
        [Element ''tr'' [] [Element ''td'' [] [Text ''a''], Element ''td'' [] [Text ''b'']],
         Element ''tr'' [] [],
         Element ''tr'' [] [Element ''td'' [] [Text ''c''], Element ''td'' [] [Text ''d'']]]"
  have h: "querySelector (hasTag [''tbody'']) ?t = None" by (simp add: dom_defs)
  from C8_rows_without_body_section [OF h] h show ?thesis
    by (simp add: dom_defs getCellsFromRow_def getCellText_def formatTableRow_def js_trim_def
        isSpace_def replaceAllChar_def)
qed

text \<open>The descendants of a descendant are descendants.\<close>

lemma descendants_trans:
  "d \<in> set (descendants n) \<Longrightarrow> set (descendants d) \<subseteq> set (descendants n)"
proof (induction n rule: descendants.induct)
  case (1 t)
  then show ?case by simp
next
  case (2 tg as cs)
  from 2(2) obtain c where c: "c \<in> set cs" and d: "d = c \<or> d \<in> set (descendants c)"
    by auto
  from d show ?case
  proof
    assume "d = c"
    with c show ?thesis by auto
  next
    assume "d \<in> set (descendants c)"
    with 2(1)[OF c] c show ?thesis by auto
  qed
qed

lemma no_cells_in_rows:
  assumes "querySelectorAll (hasTag [''td'', ''th'']) t = []"
    and "row \<in> set (descendants t)"
  shows "getCellsFromRow row = []"
proof -
  have "set (descendants row) \<subseteq> set (descendants t)"
    using assms(2) by (rule descendants_trans)
  moreover have "\<forall>d \<in> set (descendants t). \<not> hasTag [''td'', ''th''] d"
    using assms(1) by (simp add: querySelectorAll_def filter_empty_conv)
  ultimately have "filter (hasTag [''td'', ''th'']) (descendants row) = []"
    by (auto simp: filter_empty_conv)
  then show ?thesis by (simp add: getCellsFromRow_def querySelectorAll_def)
qed










text \<open>When the table renderer has no row to join.\<close>

lemma tableRows_empty:
  "(tableRows t = []) =
     ((case querySelector (hasTag [''thead'']) t of
         None \<Rightarrow> True
       | Some th \<Rightarrow> querySelector (hasTag [''tr'']) th = None) \<and>
      list_all (\<lambda>row. getCellsFromRow row = [])
        (case querySelector (hasTag [''tbody'']) t of
           Some tb \<Rightarrow> querySelectorAll (hasTag [''tr'']) tb
         | None \<Rightarrow> querySelectorAll (hasTag [''tr'']) t))"
proof -
  define rows1 where "rows1 = (case querySelector (hasTag [''thead'']) t of
                  None \<Rightarrow> []
                | Some th \<Rightarrow>
                    (case querySelector (hasTag [''tr'']) th of
                       None \<Rightarrow> []
                     | Some headerRow \<Rightarrow> addHeaderRow [] (getCellsFromRow headerRow)))"
  have r1: "(rows1 = []) = (case querySelector (hasTag [''thead'']) t of
         None \<Rightarrow> True
       | Some th \<Rightarrow> querySelector (hasTag [''tr'']) th = None)"
    by (simp add: rows1_def addHeaderRow_def split: option.splits)
  have f: "(filter (\<lambda>cells. cells \<noteq> []) (map getCellsFromRow rs) = []) =
           list_all (\<lambda>row. getCellsFromRow row = []) rs" for rs
    by (induction rs) simp_all
  show ?thesis
  proof (cases "querySelector (hasTag [''tbody'']) t")
    case (Some tb)
    have "tableRows t = rows1 @ map formatTableRow (filter (\<lambda>cells. cells \<noteq> [])
                  (map getCellsFromRow (querySelectorAll (hasTag [''tr'']) tb)))"
      using Some by (simp add: tableRows_def foldl_bodyRowStep rows1_def)
    then have "(tableRows t = []) = (rows1 = [] \<and>
        filter (\<lambda>cells. cells \<noteq> [])
          (map getCellsFromRow (querySelectorAll (hasTag [''tr'']) tb)) = [])"
      by simp
    with r1 f Some show ?thesis by simp
  next
    case None
    define R where "R = filter (\<lambda>cells. cells \<noteq> [])
        (map getCellsFromRow (querySelectorAll (hasTag [''tr'']) t))"
    show ?thesis
    proof (cases "querySelector (hasTag [''thead'']) t")
      case th: (Some th)
      have "tableRows t = rows1 @ map formatTableRow R"
        using None th by (simp add: tableRows_def foldl_directRowStep_later rows1_def R_def)
      then have "(tableRows t = []) = (rows1 = [] \<and> R = [])" by simp
      with r1 f None show ?thesis unfolding R_def by simp
    next
      case nth: None
      have "tableRows t =
          (case R of [] \<Rightarrow> [] | h # rest \<Rightarrow> addHeaderRow [] h @ map formatTableRow rest)"
        using None nth
        by (simp add: tableRows_def foldl_directRowStep_first R_def split: list.splits)
      then have "(tableRows t = []) = (R = [])"
        by (simp add: addHeaderRow_def split: list.splits)
      with f None nth show ?thesis unfolding R_def by simp
    qed
  qed
qed

text \<open>
  C9, as the program renders a table without rows. A table yields no row exactly
  when its head section, if it has one, has no row element and no row element of its
  body section (of the whole table, without one) has a cell; so it does when it has
  no head section, no body section and no cell. Such a table renders to the empty
  string when it is blank, and to two line feeds, the empty join and the blank line,
  when it is not (it holds text outside its cells, or an image, a rule, a line break
  or a table).
\<close>

theorem C9_zero_rows:
  "(tableRows t = []) =
     ((case querySelector (hasTag [''thead'']) t of
         None \<Rightarrow> True
       | Some th \<Rightarrow> querySelector (hasTag [''tr'']) th = None) \<and>
      list_all (\<lambda>row. getCellsFromRow row = [])
        (case querySelector (hasTag [''tbody'']) t of
           Some tb \<Rightarrow> querySelectorAll (hasTag [''tr'']) tb
         | None \<Rightarrow> querySelectorAll (hasTag [''tr'']) t)) \<and>
   (querySelector (hasTag [''thead'']) t = None \<and>
    querySelector (hasTag [''tbody'']) t = None \<and>
    querySelectorAll (hasTag [''td'', ''th'']) t = [] \<longrightarrow> tableRows t = []) \<and>
   (tableRows (Element ''table'' as cs) = [] \<longrightarrow>
      processNode other opts pos (Element ''table'' as cs) =
        (if isBlank (Element ''table'' as cs) then [] else [nl, nl]))"
proof (intro conjI impI)
  show "(tableRows t = []) =
     ((case querySelector (hasTag [''thead'']) t of
         None \<Rightarrow> True
       | Some th \<Rightarrow> querySelector (hasTag [''tr'']) th = None) \<and>
      list_all (\<lambda>row. getCellsFromRow row = [])
        (case querySelector (hasTag [''tbody'']) t of
           Some tb \<Rightarrow> querySelectorAll (hasTag [''tr'']) tb
         | None \<Rightarrow> querySelectorAll (hasTag [''tr'']) t))"
    by (rule tableRows_empty)
next
  assume a: "querySelector (hasTag [''thead'']) t = None \<and>
    querySelector (hasTag [''tbody'']) t = None \<and>
    querySelectorAll (hasTag [''td'', ''th'']) t = []"
  have "\<forall>row \<in> set (querySelectorAll (hasTag [''tr'']) t). getCellsFromRow row = []"
    using a no_cells_in_rows by (auto simp: querySelectorAll_def)
  then have "list_all (\<lambda>row. getCellsFromRow row = []) (querySelectorAll (hasTag [''tr'']) t)"
    by (simp add: list_all_iff)
  with a show "tableRows t = []" by (simp add: tableRows_empty)
next
  assume "tableRows (Element ''table'' as cs) = []"
  then show "processNode other opts pos (Element ''table'' as cs) =
        (if isBlank (Element ''table'' as cs) then [] else [nl, nl])"
    by (simp add: processNode_Element renderElement_def convertTableToMarkdown_def)
qed

text \<open>
  A table that holds a caption and nothing else has no row, and it is not blank: it
  renders to two line feeds, not to the empty string.
\<close>

theorem C9_counterexample:
  "tableRows (Element ''table'' [] [Element ''caption'' [] [Text ''T'']]) = [] \<and>
   processNode nanText \<lparr>isCode = False, noEscape = True\<rparr> []
     (Element ''table'' [] [Element ''caption'' [] [Text ''T'']]) = [nl, nl] \<and>
   processNode nanText \<lparr>isCode = False, noEscape = True\<rparr> []
     (Element ''table'' [] [Element ''caption'' [] [Text ''T'']]) \<noteq> []"
  by (simp add: dom_defs table_defs isBlank_def processNode_Element renderElement_def)

theorem C9_witness:
  "querySelector (hasTag [''thead'']) (Element ''table'' [] []) = None \<and>
   querySelector (hasTag [''tbody'']) (Element ''table'' [] []) = None \<and>
   querySelectorAll (hasTag [''td'', ''th'']) (Element ''table'' [] []) = [] \<and>
   tableRows (Element ''table'' [] []) = [] \<and>
   isBlank (Element ''table'' [] []) \<and>
   processNode nanText \<lparr>isCode = False, noEscape = True\<rparr> [] (Element ''table'' [] []) = [] \<and>
   tableRows (Element ''table'' [] [Element ''tr'' [] [], Text ''note'']) = [] \<and>
   processNode nanText \<lparr>isCode = False, noEscape = True\<rparr> []
     (Element ''table'' [] [Element ''tr'' [] [], Text ''note'']) = [nl, nl]"
  using C9_zero_rows [of "Element ''table'' [] []" "[]" "[]" nanText
      "\<lparr>isCode = False, noEscape = True\<rparr>" "[]"]
  by (simp add: dom_defs table_defs isBlank_def processNode_Element renderElement_def)

subsection \<open>The tree walker\<close>

text \<open>
  C7. An element whose text content is white space only and which has no image,
  horizontal rule, line break or table below it renders to the empty string; so does
  a strong element whose only child is a space.
\<close>

theorem C7_blank_element_renders_empty:
  assumes "isElement n"
    and "list_all isSpace (textContent n)"
    and "\<forall>d \<in> set (descendants n). \<not> hasTag [''img'', ''hr'', ''br'', ''table''] d"
  shows "processNode other opts pos n = []"
proof -
  from assms(3) have "filter (hasTag [''img'', ''hr'', ''br'', ''table'']) (descendants n) = []"
    by (simp add: filter_empty_conv)
  then have "querySelector (hasTag [''img'', ''hr'', ''br'', ''table'']) n = None"
    by (simp add: querySelector_def querySelectorAll_def)
  with assms(1,2) have blank: "isBlank n" by (simp add: isBlank_def)
  from assms(1) obtain tg as cs where n: "n = Element tg as cs" by (cases n) simp_all
  from blank show ?thesis unfolding n by (simp add: processNode_Element)
qed

theorem C7_witness:
  "isElement (Element ''strong'' [] [Text '' '']) \<and>
   list_all isSpace (textContent (Element ''strong'' [] [Text '' ''])) \<and>
   processNode nanText \<lparr>isCode = False, noEscape = True\<rparr> [] (Element ''strong'' [] [Text '' '']) = [] \<and>
   renderElement [] (Element ''strong'' [] [Text '' '']) ''x'' = ''**x**'' \<and>
   list_all isSpace (textContent (Element ''p'' [] [Element ''br'' [] []])) \<and>
   processNode nanText \<lparr>isCode = False, noEscape = True\<rparr> []
     (Element ''p'' [] [Element ''br'' [] []]) = [nl, nl]"
  using C7_blank_element_renders_empty [of "Element ''strong'' [] [Text '' '']" nanText
      "\<lparr>isCode = False, noEscape = True\<rparr>" "[]"]
  by (simp add: dom_defs node_defs isSpace_def js_trim_def)

subsection \<open>Code\<close>

text \<open>
  C5, with the guard for blank elements. A preformatted block renders to the empty
  string when it is blank, and otherwise as the fence: three backticks and the
  language, a line feed, the trimmed code, a line feed, three backticks and a blank
  line. With a code element below it, the language is the group of
  \<open>language-(\S+)\<close> in the class of the first such element (empty without a match)
  and the code is the text content of that element; without one, the language is
  empty and the code is the rendered children.
\<close>

theorem C5_fence_of_pre:
  "processNode other opts pos (Element ''pre'' as cs) =
     (if isBlank (Element ''pre'' as cs) then [] else
      let language =
            (case querySelector (hasTag [''code'']) (Element ''pre'' as cs) of
               None \<Rightarrow> []
             | Some ce \<Rightarrow>
                 (case getAttribute ce ''class'' of
                    None \<Rightarrow> []
                  | Some v \<Rightarrow> (case matchLanguage v of None \<Rightarrow> [] | Some l \<Rightarrow> l)));
          code =
            (case querySelector (hasTag [''code'']) (Element ''pre'' as cs) of
               None \<Rightarrow> renderChildren other (opts\<lparr>isCode := False\<rparr>) pos (Element ''pre'' as cs)
             | Some ce \<Rightarrow> textContent ce)
      in [bt, bt, bt] @ language @ [nl] @ js_trim code @ [nl] @ [bt, bt, bt] @ [nl, nl])"
  by (simp add: processNode_Element renderElement_def childOptions_def Let_def
      split: option.splits)

theorem C5_witness:
  "\<not> isBlank (Element ''pre'' []
       [Element ''code'' [(''class'', ''language-python'')] [Text ''print(1)'']]) \<and>
   processNode nanText \<lparr>isCode = False, noEscape = True\<rparr> []
     (Element ''pre'' [] [Element ''code'' [(''class'', ''language-python'')] [Text ''print(1)'']])
   = [bt, bt, bt] @ ''python'' @ [nl] @ ''print(1)'' @ [nl] @ [bt, bt, bt] @ [nl, nl] \<and>
   processNode nanText \<lparr>isCode = False, noEscape = True\<rparr> []
     (Element ''pre'' []
        [Element ''code'' [(''class'', ''hljs language-js x'')] [Text ([nl] @ ''  let a '' @ [nl])]])
   = [bt, bt, bt] @ ''js'' @ [nl] @ ''let a'' @ [nl] @ [bt, bt, bt] @ [nl, nl] \<and>
   processNode nanText \<lparr>isCode = False, noEscape = False\<rparr> []
     (Element ''pre'' [] [Text '' a*b '', Element ''span'' [] [Text ''c_d  '']])
   = [bt, bt, bt] @ [nl] @ ''a'' @ [bs] @ ''*b c'' @ [bs] @ ''_d'' @ [nl] @ [bt, bt, bt] @ [nl, nl]"
  using C5_fence_of_pre [of nanText "\<lparr>isCode = False, noEscape = True\<rparr>" "[]" "[]"
      "[Element ''code'' [(''class'', ''language-python'')] [Text ''print(1)'']]"]
  by (simp add: dom_defs node_defs isSpace_def js_trim_def collapseWhitespace_def
       escapeMarkdown_def replaceAllChar_def onLines.simps isLineTerminator_def
       escLeadingHashes_def escLeadingGt_def escLeadingDash_def escLeadingPlus_def
       escLeadingEquals_def escLeadingNumber_def isDigit_def)

text \<open>
  A preformatted block whose code element carries the class \<open>language-python\<close> and has
  no text: the guard for blank elements returns the empty string, where the case
  \<open>pre\<close> of the switch would give the fence.
\<close>

theorem C5_counterexample:
  "querySelector (hasTag [''code''])
     (Element ''pre'' [] [Element ''code'' [(''class'', ''language-python'')] []])
     = Some (Element ''code'' [(''class'', ''language-python'')] []) \<and>
   processNode nanText \<lparr>isCode = False, noEscape = True\<rparr> []
     (Element ''pre'' [] [Element ''code'' [(''class'', ''language-python'')] []]) = [] \<and>
   renderElement [] (Element ''pre'' [] [Element ''code'' [(''class'', ''language-python'')] []]) []
     = [bt, bt, bt] @ ''python'' @ [nl] @ [nl] @ [bt, bt, bt] @ [nl, nl]"
  by (simp add: dom_defs node_defs isSpace_def js_trim_def)

lemma lineBreaksToSpaces_no_breaks:
  "nl \<notin> set (lineBreaksToSpaces s) \<and> cr \<notin> set (lineBreaksToSpaces s)"
  by (induction s rule: lineBreaksToSpaces.induct) auto

text \<open>
  C6, with the guard for blank elements. An inline code element that is not a child
  of a preformatted block renders to the empty string when it is blank or its content
  is empty; otherwise every line break of the content becomes a space, the
  delimiter is two backticks when the content holds a backtick and one otherwise, and
  one space stands on each side exactly when the content, its line breaks replaced,
  starts or ends with a backtick or a space.
\<close>

theorem C6_inline_code:
  assumes "map_option tagName (parentElement pos) \<noteq> Some ''pre''"
  shows "processNode other opts pos (Element ''code'' as cs) =
     (if isBlank (Element ''code'' as cs) then [] else
      let content = renderChildren other (opts\<lparr>isCode := True\<rparr>) pos (Element ''code'' as cs);
          inlineCode = lineBreaksToSpaces content;
          delimiter = replicate (if bt \<in> set inlineCode then 2 else 1) bt;
          padding =
            (if hd inlineCode = bt \<or> hd inlineCode = CHR '' '' \<or>
                last inlineCode = bt \<or> last inlineCode = CHR '' ''
             then '' '' else [])
      in if content = [] then []
         else delimiter @ padding @ inlineCode @ padding @ delimiter) \<and>
     nl \<notin> set (lineBreaksToSpaces
                  (renderChildren other (opts\<lparr>isCode := True\<rparr>) pos (Element ''code'' as cs))) \<and>
     cr \<notin> set (lineBreaksToSpaces
                  (renderChildren other (opts\<lparr>isCode := True\<rparr>) pos (Element ''code'' as cs)))"
proof -
  have r2: "replicate 2 bt = [bt, bt]" by (simp add: numeral_2_eq_2)
  from assms have p: "(map_option tagName (parentElement pos) = Some ''pre'') = False"
    by simp
  have "processNode other opts pos (Element ''code'' as cs) =
      (if isBlank (Element ''code'' as cs) then [] else
       renderElement pos (Element ''code'' as cs)
        (renderChildren other (opts\<lparr>isCode := True\<rparr>) pos (Element ''code'' as cs)))"
    by (simp add: processNode_Element childOptions_def)
  then show ?thesis
    using lineBreaksToSpaces_no_breaks
    by (simp add: renderElement_def Let_def r2 p del: map_option_eq_Some)
qed

theorem C6_witness:
  "\<not> isBlank (Element ''code'' [] [Text (''a'' @ [bt] @ ''b'' @ [nl] @ ''c '')]) \<and>
   map_option tagName (parentElement []) \<noteq> Some ''pre'' \<and>
   processNode nanText \<lparr>isCode = False, noEscape = False\<rparr> []
     (Element ''code'' [] [Text (''a'' @ [bt] @ ''b'' @ [nl] @ ''c '')])
   = [bt, bt] @ '' '' @ ''a'' @ [bt] @ ''b c '' @ '' '' @ [bt, bt] \<and>
   processNode nanText \<lparr>isCode = False, noEscape = False\<rparr> []
     (Element ''code'' [] [Text ''x*y'']) = [bt] @ ''x*y'' @ [bt] \<and>
   processNode nanText \<lparr>isCode = False, noEscape = False\<rparr> []
     (Element ''code'' [] [Text (''a'' @ [cr, nl] @ ''b'' @ [cr] @ ''c'')])
   = [bt] @ ''a b c'' @ [bt]"
  using C6_inline_code [of "[]" nanText "\<lparr>isCode = False, noEscape = False\<rparr>" "[]"
      "[Text (''a'' @ [bt] @ ''b'' @ [nl] @ ''c '')]"]
  by (simp add: dom_defs node_defs isSpace_def)

text \<open>
  An inline code element whose content is one space: the content is not empty, and
  the guard for blank elements returns the empty string, where the case \<open>code\<close> of
  the switch would give the padded code span.
\<close>

theorem C6_counterexample:
  "renderChildren nanText \<lparr>isCode = True, noEscape = True\<rparr> [] (Element ''code'' [] [Text '' ''])
     = '' '' \<and>
   processNode nanText \<lparr>isCode = False, noEscape = True\<rparr> [] (Element ''code'' [] [Text '' ''])
     = [] \<and>
   renderElement [] (Element ''code'' [] [Text '' '']) '' '' = [bt] @ ''   '' @ [bt]"
  by (simp add: dom_defs node_defs isSpace_def)

subsection \<open>List items\<close>

lemma processNode_li:
  assumes "\<not> isBlank (Element ''li'' as cs)"
  shows "processNode other opts pos (Element ''li'' as cs) =
     listItemPrefix other pos @ taskListPrefix (Element ''li'' as cs) @
     listItemContent (renderChildren other opts [] (liClone (Element ''li'' as cs))) @
     (if nextSibling pos \<noteq> None \<and>
         \<not> endsWithNewline
             (listItemContent (renderChildren other opts [] (liClone (Element ''li'' as cs))))
      then [nl] else [])"
  using assms by (simp add: processNode_Element renderListItem_def Let_def)

text \<open>The pre-order list of a forest, and what \<open>removeFirst\<close> does to it.\<close>

lemma removeFirst_None:
  "\<forall>t. \<not> sel (Text t) \<Longrightarrow> removeFirst sel ns = None \<Longrightarrow>
   filter sel (concat (map (\<lambda>c. c # descendants c) ns)) = []"
proof (induction sel ns rule: removeFirst.induct)
  case (1 sel)
  then show ?case by simp
next
  case (2 sel t ns)
  then show ?case by simp
next
  case (3 sel tg as cs ns)
  from 3(4) have ns: "\<not> sel (Element tg as cs)"
    by (auto split: if_splits)
  with 3(4) have cs: "removeFirst sel cs = None" and r: "removeFirst sel ns = None"
    by (auto split: option.splits)
  from 3(1)[OF ns 3(3) cs] 3(2)[OF ns cs 3(3) r] ns show ?case by simp
qed

text \<open>
  When \<open>removeFirst\<close> takes a node out, that node is the first match in document
  order, and the text of the forest loses the text of that node and nothing else.
\<close>

lemma removeFirst_Some:
  "\<forall>t. \<not> sel (Text t) \<Longrightarrow> removeFirst sel ns = Some ns' \<Longrightarrow>
   \<exists>x before after.
     filter sel (concat (map (\<lambda>c. c # descendants c) ns)) \<noteq> [] \<and>
     hd (filter sel (concat (map (\<lambda>c. c # descendants c) ns))) = x \<and>
     concat (map textContent ns) = before @ textContent x @ after \<and>
     concat (map textContent ns') = before @ after"
proof (induction sel ns arbitrary: ns' rule: removeFirst.induct)
  case (1 sel)
  then show ?case by simp
next
  case (2 sel t ns)
  from 2(3) obtain z where z: "removeFirst sel ns = Some z" and n: "ns' = Text t # z"
    by auto
  from 2(1)[OF 2(2) z] obtain x before after where
    h: "filter sel (concat (map (\<lambda>c. c # descendants c) ns)) \<noteq> []"
       "hd (filter sel (concat (map (\<lambda>c. c # descendants c) ns))) = x"
       "concat (map textContent ns) = before @ textContent x @ after"
       "concat (map textContent z) = before @ after"
    by blast
  have "concat (map textContent (Text t # ns)) = (t @ before) @ textContent x @ after"
    using h(3) by simp
  moreover have "concat (map textContent ns') = (t @ before) @ after"
    using h(4) n by simp
  moreover have "filter sel (concat (map (\<lambda>c. c # descendants c) (Text t # ns))) \<noteq> []"
    using h(1) 2(2) by simp
  moreover have "hd (filter sel (concat (map (\<lambda>c. c # descendants c) (Text t # ns)))) = x"
    using h(2) 2(2) by simp
  ultimately show ?case by blast
next
  case (3 sel tg as cs ns)
  let ?e = "Element tg as cs"
  show ?case
  proof (cases "sel ?e")
    case True
    with 3(4) have n: "ns' = ns" by simp
    have "concat (map textContent (?e # ns)) = [] @ textContent ?e @ concat (map textContent ns)"
      by simp
    moreover have "concat (map textContent ns') = [] @ concat (map textContent ns)"
      using n by simp
    moreover have "filter sel (concat (map (\<lambda>c. c # descendants c) (?e # ns))) \<noteq> []"
      using True by simp
    moreover have "hd (filter sel (concat (map (\<lambda>c. c # descendants c) (?e # ns)))) = ?e"
      using True by simp
    ultimately show ?thesis by blast
  next
    case False
    show ?thesis
    proof (cases "removeFirst sel cs")
      case (Some cs')
      with False 3(4) have n: "ns' = Element tg as cs' # ns" by simp
      from 3(1)[OF False 3(3) Some] obtain x before after where
        h: "filter sel (concat (map (\<lambda>c. c # descendants c) cs)) \<noteq> []"
           "hd (filter sel (concat (map (\<lambda>c. c # descendants c) cs))) = x"
           "concat (map textContent cs) = before @ textContent x @ after"
           "concat (map textContent cs') = before @ after"
        by blast
      have "concat (map textContent (?e # ns)) =
              before @ textContent x @ (after @ concat (map textContent ns))"
        using h(3) by simp
      moreover have "concat (map textContent ns') = before @ (after @ concat (map textContent ns))"
        using h(4) n by simp
      moreover have "filter sel (concat (map (\<lambda>c. c # descendants c) (?e # ns))) \<noteq> []"
        using h(1) by simp
      moreover have "hd (filter sel (concat (map (\<lambda>c. c # descendants c) (?e # ns)))) = x"
        using h(1,2) False by simp
      ultimately show ?thesis by blast
    next
      case None
      with False 3(4) obtain z where z: "removeFirst sel ns = Some z"
        and n: "ns' = ?e # z" by auto
      from removeFirst_None[OF 3(3) None]
      have nocs: "filter sel (concat (map (\<lambda>c. c # descendants c) cs)) = []" .
      from 3(2)[OF False None 3(3) z] obtain x before after where
        h: "filter sel (concat (map (\<lambda>c. c # descendants c) ns)) \<noteq> []"
           "hd (filter sel (concat (map (\<lambda>c. c # descendants c) ns))) = x"
           "concat (map textContent ns) = before @ textContent x @ after"
           "concat (map textContent z) = before @ after"
        by blast
      have "concat (map textContent (?e # ns)) =
              (textContent ?e @ before) @ textContent x @ after"
        using h(3) by simp
      moreover have "concat (map textContent ns') = (textContent ?e @ before) @ after"
        using h(4) n by simp
      moreover have "filter sel (concat (map (\<lambda>c. c # descendants c) (?e # ns))) \<noteq> []"
        using h(1) by simp
      moreover have "hd (filter sel (concat (map (\<lambda>c. c # descendants c) (?e # ns)))) = x"
        using h(2) False nocs by simp
      ultimately show ?thesis by blast
    qed
  qed
qed

lemma isCheckbox_Text: "\<forall>t. \<not> isCheckbox (Text t)"
  by (simp add: isCheckbox_def hasTag_def)

text \<open>
  The copy a list item with a checkbox is rendered from: the first checkbox is taken
  out, and the text of the copy is the text of the item without the text of that
  checkbox.
\<close>

lemma liClone_checkbox:
  assumes "querySelector isCheckbox (Element ''li'' as cs) = Some cb"
  shows "\<exists>cs' before after.
           liClone (Element ''li'' as cs) = Element ''li'' as cs' \<and>
           removeFirst isCheckbox cs = Some cs' \<and>
           textContent (Element ''li'' as cs) = before @ textContent cb @ after \<and>
           textContent (liClone (Element ''li'' as cs)) = before @ after"
proof -
  from assms have ne: "filter isCheckbox (concat (map (\<lambda>c. c # descendants c) cs)) \<noteq> []"
    and cb: "hd (filter isCheckbox (concat (map (\<lambda>c. c # descendants c) cs))) = cb"
    by (auto simp: querySelector_def querySelectorAll_def split: list.splits)
  from ne removeFirst_None[OF isCheckbox_Text] obtain cs' where
    r: "removeFirst isCheckbox cs = Some cs'"
    by (cases "removeFirst isCheckbox cs") auto
  from removeFirst_Some[OF isCheckbox_Text r] cb obtain before after where
    t: "concat (map textContent cs) = before @ textContent cb @ after"
       "concat (map textContent cs') = before @ after"
    by auto
  have c: "liClone (Element ''li'' as cs) = Element ''li'' as cs'"
    using r by (simp add: liClone_def)
  have "textContent (Element ''li'' as cs) = before @ textContent cb @ after"
    using t(1) by simp
  moreover have "textContent (liClone (Element ''li'' as cs)) = before @ after"
    using t(2) c by simp
  ultimately show ?thesis using c r by blast
qed

text \<open>
  C3, with the guard for blank elements. A list item with a checkbox below it
  renders to the empty string when it is blank, and otherwise as the marker, then
  \<open>[x] \<close> for a checked and \<open>[ ] \<close> for an unchecked first checkbox, then the body,
  then a line feed when the item has a next sibling and the body does not end in a
  line feed. The body is rendered from a copy of the item from which that checkbox
  is taken out: the text of the copy is the text of the item without the text of the
  checkbox.
\<close>

theorem C3_task_list_item:
  assumes "querySelector isCheckbox (Element ''li'' as cs) = Some cb"
  shows "\<exists>cs' before after.
     removeFirst isCheckbox cs = Some cs' \<and>
     textContent (Element ''li'' as cs) = before @ textContent cb @ after \<and>
     textContent (Element ''li'' as cs') = before @ after \<and>
     processNode other opts pos (Element ''li'' as cs) =
       (if isBlank (Element ''li'' as cs) then [] else
        let body = listItemContent (renderChildren other opts [] (Element ''li'' as cs'))
        in listItemPrefix other pos @
           (if getAttribute cb ''checked'' \<noteq> None then ''[x] '' else ''[ ] '') @
           body @
           (if nextSibling pos \<noteq> None \<and> \<not> endsWithNewline body then [nl] else []))"
proof -
  from liClone_checkbox[OF assms] obtain cs' before after where
    h: "liClone (Element ''li'' as cs) = Element ''li'' as cs'"
       "removeFirst isCheckbox cs = Some cs'"
       "textContent (Element ''li'' as cs) = before @ textContent cb @ after"
       "textContent (liClone (Element ''li'' as cs)) = before @ after"
    by blast
  have "processNode other opts pos (Element ''li'' as cs) =
       (if isBlank (Element ''li'' as cs) then [] else
        let body = listItemContent (renderChildren other opts [] (Element ''li'' as cs'))
        in listItemPrefix other pos @
           (if getAttribute cb ''checked'' \<noteq> None then ''[x] '' else ''[ ] '') @
           body @
           (if nextSibling pos \<noteq> None \<and> \<not> endsWithNewline body then [nl] else []))"
    using processNode_li[of as cs other opts pos] assms h(1)
    by (simp add: taskListPrefix_def Let_def processNode_Element)
  with h show ?thesis by metis
qed

theorem C3_witness:
  "\<not> isBlank (Element ''li'' [] [Element ''input'' [(''type'', ''checkbox''), (''checked'', [])] [Text ''zz''], Text ''done'']) \<and>
   querySelector isCheckbox
     (Element ''li'' [] [Element ''input'' [(''type'', ''checkbox''), (''checked'', [])] [Text ''zz''], Text ''done''])
     = Some (Element ''input'' [(''type'', ''checkbox''), (''checked'', [])] [Text ''zz'']) \<and>
   processNode nanText \<lparr>isCode = False, noEscape = True\<rparr>
     [(Element ''ul'' []
         [Element ''li'' [] [Element ''input'' [(''type'', ''checkbox''), (''checked'', [])] [Text ''zz''], Text ''done''],
          Element ''li'' [] [Element ''input'' [(''type'', ''checkbox'')] [], Text ''done''],
          Element ''li'' [] [Text ''last'']], 0)]
     (Element ''li'' [] [Element ''input'' [(''type'', ''checkbox''), (''checked'', [])] [Text ''zz''], Text ''done''])
     = ''- [x] done'' @ [nl] \<and>
   processNode nanText \<lparr>isCode = False, noEscape = True\<rparr>
     [(Element ''ul'' []
         [Element ''li'' [] [Element ''input'' [(''type'', ''checkbox''), (''checked'', [])] [Text ''zz''], Text ''done''],
          Element ''li'' [] [Element ''input'' [(''type'', ''checkbox'')] [], Text ''done''],
          Element ''li'' [] [Text ''last'']], 1)]
     (Element ''li'' [] [Element ''input'' [(''type'', ''checkbox'')] [], Text ''done''])
     = ''- [ ] done'' @ [nl] \<and>
   processNode nanText \<lparr>isCode = False, noEscape = True\<rparr>
     [(Element ''ul'' []
         [Element ''li'' [] [Element ''input'' [(''type'', ''checkbox'')] [], Text ''done'']], 0)]
     (Element ''li'' [] [Element ''input'' [(''type'', ''checkbox'')] [], Text ''done''])
     = ''- [ ] done''"
  using C3_task_list_item [of "[]"
      "[Element ''input'' [(''type'', ''checkbox''), (''checked'', [])] [Text ''zz''], Text ''done'']"
      "Element ''input'' [(''type'', ''checkbox''), (''checked'', [])] [Text ''zz'']"
      nanText "\<lparr>isCode = False, noEscape = True\<rparr>"
      "[(Element ''ul'' []
         [Element ''li'' [] [Element ''input'' [(''type'', ''checkbox''), (''checked'', [])] [Text ''zz''], Text ''done''],
          Element ''li'' [] [Element ''input'' [(''type'', ''checkbox'')] [], Text ''done''],
          Element ''li'' [] [Text ''last'']], 0)]"]
  by (simp add: dom_defs node_defs isSpace_def collapseWhitespace_def)

text \<open>
  A list item under an unordered list whose only child is a checked checkbox: the
  guard for blank elements returns the empty string, where the case \<open>li\<close> of the
  switch would give the marker and the task prefix.
\<close>

theorem C3_counterexample:
  "querySelector isCheckbox
     (Element ''li'' [] [Element ''input'' [(''type'', ''checkbox''), (''checked'', [])] []])
     = Some (Element ''input'' [(''type'', ''checkbox''), (''checked'', [])] []) \<and>
   processNode nanText \<lparr>isCode = False, noEscape = True\<rparr>
     [(Element ''ul'' []
         [Element ''li'' [] [Element ''input'' [(''type'', ''checkbox''), (''checked'', [])] []]], 0)]
     (Element ''li'' [] [Element ''input'' [(''type'', ''checkbox''), (''checked'', [])] []]) = [] \<and>
   renderListItem nanText
     [(Element ''ul'' []
         [Element ''li'' [] [Element ''input'' [(''type'', ''checkbox''), (''checked'', [])] []]], 0)]
     (Element ''li'' [] [Element ''input'' [(''type'', ''checkbox''), (''checked'', [])] []]) []
     = ''- [x] ''"
  by (simp add: dom_defs node_defs isSpace_def)

text \<open>Decimal numerals: \<open>decimalValue\<close> reads what \<open>showNat\<close> prints.\<close>

lemma digitValue_digit: "k < 10 \<Longrightarrow> digitValue (''0123456789'' ! k) = k"
proof -
  assume "k < 10"
  then have "k = 0 \<or> k = 1 \<or> k = 2 \<or> k = 3 \<or> k = 4 \<or> k = 5 \<or> k = 6 \<or> k = 7 \<or> k = 8 \<or> k = 9"
    by arith
  then show ?thesis by (elim disjE) (simp_all add: digitValue_def)
qed

lemma decimalValue_snoc: "decimalValue (s @ [c]) = 10 * decimalValue s + digitValue c"
  by (simp add: decimalValue_def)

lemma decimalValue_showNat: "decimalValue (showNat n) = n"
proof (induction n rule: showNat.induct)
  case (1 n)
  show ?case
  proof (cases "n < 10")
    case True
    then show ?thesis
      by (subst showNat.simps) (simp add: decimalValue_def digitValue_digit)
  next
    case False
    have "decimalValue (showNat n) = 10 * decimalValue (showNat (n div 10)) + n mod 10"
      using False by (subst showNat.simps) (simp add: decimalValue_snoc digitValue_digit)
    with 1[OF False] show ?thesis by simp
  qed
qed

text \<open>
  C4, as the code numbers the items. A list item renders to the empty string when it
  is blank, and otherwise starts with its marker. The marker is \<open>- \<close> unless the
  parent element is an ordered list. Under an ordered list it is a number and \<open>. \<close>,
  where \<open>index\<close> counts the element children of the parent before the item (from 0):
  the number is \<open>index + 1\<close> when the parent has no \<open>start\<close> attribute or an empty
  one, and \<open>start + index\<close> when \<open>start\<close> is a string of decimal digits (with a sum of
  at most \<open>2^53 - 1\<close>).
\<close>

theorem C4_list_item_marker:
  "processNode other opts pos (Element ''li'' as cs) =
     (if isBlank (Element ''li'' as cs) then []
      else listItemPrefix other pos @ taskListPrefix (Element ''li'' as cs) @
        listItemContent (renderChildren other opts [] (liClone (Element ''li'' as cs))) @
        (if nextSibling pos \<noteq> None \<and>
            \<not> endsWithNewline
                (listItemContent (renderChildren other opts [] (liClone (Element ''li'' as cs))))
         then [nl] else [])) \<and>
   (map_option tagName (parentElement pos) \<noteq> Some ''ol'' \<longrightarrow>
      listItemPrefix other pos = ''- '') \<and>
   (parentElement pos = Some parent \<and> tagName parent = ''ol'' \<and>
    (getAttribute parent ''start'' = None \<or> getAttribute parent ''start'' = Some []) \<longrightarrow>
      listItemPrefix other pos = showNat (indexInChildren pos + 1) @ ''. '') \<and>
   (parentElement pos = Some parent \<and> tagName parent = ''ol'' \<and>
    getAttribute parent ''start'' = Some st \<and> st \<noteq> [] \<and> list_all isDigit st \<and>
    decimalValue st + indexInChildren pos \<le> 9007199254740991 \<longrightarrow>
      listItemPrefix other pos = showNat (decimalValue st + indexInChildren pos) @ ''. '')"
proof (intro conjI impI)
  show "processNode other opts pos (Element ''li'' as cs) =
     (if isBlank (Element ''li'' as cs) then []
      else listItemPrefix other pos @ taskListPrefix (Element ''li'' as cs) @
        listItemContent (renderChildren other opts [] (liClone (Element ''li'' as cs))) @
        (if nextSibling pos \<noteq> None \<and>
            \<not> endsWithNewline
                (listItemContent (renderChildren other opts [] (liClone (Element ''li'' as cs))))
         then [nl] else []))"
    using processNode_li[of as cs other opts pos] by (simp add: processNode_Element)
next
  assume "map_option tagName (parentElement pos) \<noteq> Some ''ol''"
  then show "listItemPrefix other pos = ''- ''"
    by (cases "parentElement pos") (simp_all add: listItemPrefix_def)
next
  assume "parentElement pos = Some parent \<and> tagName parent = ''ol'' \<and>
    (getAttribute parent ''start'' = None \<or> getAttribute parent ''start'' = Some [])"
  then show "listItemPrefix other pos = showNat (indexInChildren pos + 1) @ ''. ''"
    by (auto simp: listItemPrefix_def Let_def)
next
  assume "parentElement pos = Some parent \<and> tagName parent = ''ol'' \<and>
    getAttribute parent ''start'' = Some st \<and> st \<noteq> [] \<and> list_all isDigit st \<and>
    decimalValue st + indexInChildren pos \<le> 9007199254740991"
  then show "listItemPrefix other pos = showNat (decimalValue st + indexInChildren pos) @ ''. ''"
    by (simp add: listItemPrefix_def numberPlusIndex_def Let_def)
qed

theorem C4_witness:
  "\<not> isBlank (Element ''li'' [] [Text ''b'']) \<and>
   processNode nanText \<lparr>isCode = False, noEscape = True\<rparr>
     [(Element ''ul'' [] [Element ''li'' [] [Text ''a''], Element ''li'' [] [Text ''b'']], 1)]
     (Element ''li'' [] [Text ''b'']) = ''- b'' \<and>
   processNode nanText \<lparr>isCode = False, noEscape = True\<rparr>
     [(Element ''ol'' [] [Element ''li'' [] [Text ''a''], Element ''li'' [] [Text ''b'']], 1)]
     (Element ''li'' [] [Text ''b'']) = ''2. b'' \<and>
   processNode nanText \<lparr>isCode = False, noEscape = True\<rparr>
     [(Element ''ol'' [(''start'', ''5'')]
         [Element ''li'' [] [Text ''a''], Element ''li'' [] [Text ''b'']], 1)]
     (Element ''li'' [] [Text ''b'']) = ''6. b'' \<and>
   processNode nanText \<lparr>isCode = False, noEscape = True\<rparr>
     [(Element ''ol'' [(''start'', ''5'')]
         [Element ''li'' [] [Text ''a''], Element ''li'' [] [Text ''b'']], 0)]
     (Element ''li'' [] [Text ''a'']) = ''5. a'' @ [nl] \<and>
   processNode nanText \<lparr>isCode = False, noEscape = True\<rparr>
     [(Element ''ol'' []
         [Text ''x'', Element ''li'' [] [Text ''a''], Text ''y'', Element ''li'' [] [Text ''b'']], 3)]
     (Element ''li'' [] [Text ''b'']) = ''2. b''"
  using C4_list_item_marker [of nanText
      "\<lparr>isCode = False, noEscape = True\<rparr>"
      "[(Element ''ol'' [(''start'', ''5'')]
         [Element ''li'' [] [Text ''a''], Element ''li'' [] [Text ''b'']], 1)]"
      "[]" "[Text ''b'']"
      "Element ''ol'' [(''start'', ''5'')]
         [Element ''li'' [] [Text ''a''], Element ''li'' [] [Text ''b'']]"
      "''5''"]
  by (simp add: dom_defs node_defs isSpace_def collapseWhitespace_def numberPlusIndex_def
      decimalValue_def digitValue_def isDigit_def showNat.simps)

text \<open>
  The first item of an ordered list: its position among the items, counted from 1,
  is 1. Without a \<open>start\<close> attribute the marker is \<open>1. \<close>, not \<open>2. \<close> (1 + 1); with
  \<open>start = 5\<close> it is \<open>5. \<close>, not \<open>6. \<close> (5 + 1).
\<close>

theorem C4_counterexample:
  "processNode nanText \<lparr>isCode = False, noEscape = True\<rparr>
     [(Element ''ol'' [] [Element ''li'' [] [Text ''a''], Element ''li'' [] [Text ''b'']], 0)]
     (Element ''li'' [] [Text ''a'']) = ''1. a'' @ [nl] \<and>
   listItemPrefix nanText
     [(Element ''ol'' [] [Element ''li'' [] [Text ''a''], Element ''li'' [] [Text ''b'']], 0)]
     \<noteq> showNat (1 + 1) @ ''. '' \<and>
   processNode nanText \<lparr>isCode = False, noEscape = True\<rparr>
     [(Element ''ol'' [(''start'', ''5'')]
         [Element ''li'' [] [Text ''a''], Element ''li'' [] [Text ''b'']], 0)]
     (Element ''li'' [] [Text ''a'']) = ''5. a'' @ [nl] \<and>
   listItemPrefix nanText
     [(Element ''ol'' [(''start'', ''5'')]
         [Element ''li'' [] [Text ''a''], Element ''li'' [] [Text ''b'']], 0)]
     \<noteq> showNat (5 + 1) @ ''. ''"
  by (simp add: dom_defs node_defs isSpace_def collapseWhitespace_def numberPlusIndex_def
      decimalValue_def digitValue_def isDigit_def showNat.simps)

subsection \<open>Escaping\<close>

lemma unescape_plain: "c \<noteq> bs \<Longrightarrow> unescape (c # s) = c # unescape s"
  by (cases s) simp_all

lemma unescape_escaped: "unescape (bs # d # s) = d # unescape s"
  by simp

lemma wellEscaped_plain: "c \<noteq> bs \<Longrightarrow> wellEscaped S (c # s) = wellEscaped S s"
  by (cases s) simp_all

lemma wellEscaped_escaped: "wellEscaped S (bs # d # s) = (d \<in> S \<and> wellEscaped S s)"
  by simp

lemma wellEscaped_mono: "wellEscaped S s \<Longrightarrow> S \<subseteq> S' \<Longrightarrow> wellEscaped S' s"
  by (induction S s rule: wellEscaped.induct) (auto split: if_splits)

lemma unescape_plain_append: "bs \<notin> set g \<Longrightarrow> unescape (g @ s) = g @ unescape s"
  by (induction g) (auto simp: unescape_plain)

lemma wellEscaped_plain_append: "bs \<notin> set g \<Longrightarrow> wellEscaped S (g @ s) = wellEscaped S s"
  by (induction g) (auto simp: wellEscaped_plain)

lemma replaceAllChar_Nil: "replaceAllChar c r [] = []"
  by (simp add: replaceAllChar_def)

lemma replaceAllChar_Cons:
  "replaceAllChar c r (x # s) = (if x = c then r else [x]) @ replaceAllChar c r s"
  by (simp add: replaceAllChar_def)

lemma escape_backslashes:
  "unescape (replaceAllChar bs [bs, bs] s) = s \<and> wellEscaped {bs} (replaceAllChar bs [bs, bs] s)"
  by (induction s)
     (simp_all add: replaceAllChar_Nil replaceAllChar_Cons unescape_plain wellEscaped_plain)

lemma escape_char:
  assumes "c \<noteq> bs" and "c \<notin> S"
  shows "wellEscaped S s \<Longrightarrow>
         unescape (replaceAllChar c [bs, c] s) = unescape s \<and>
         wellEscaped (insert c S) (replaceAllChar c [bs, c] s)"
proof (induction s rule: unescape.induct)
  case 1
  then show ?case by (simp add: replaceAllChar_Nil)
next
  case (2 x)
  then show ?case by (simp add: replaceAllChar_Nil replaceAllChar_Cons)
next
  case (3 x d cs)
  show ?case
  proof (cases "x = bs")
    case True
    with 3(3) have d: "d \<in> S" and w: "wellEscaped S cs" by simp_all
    from d assms(2) have dc: "d \<noteq> c" by auto
    from 3(1)[OF True w] True d dc assms(1) show ?thesis
      by (simp add: replaceAllChar_Cons)
  next
    case False
    with 3(3) have w: "wellEscaped S (d # cs)" by simp
    from 3(2)[OF False w] False assms(1) show ?thesis
      by (simp add: replaceAllChar_Cons[of c _ x] unescape_plain wellEscaped_plain)
  qed
qed

text \<open>An escaped character put before a text that starts with a plain character.\<close>

lemma escape_first:
  assumes "x \<noteq> bs" and "wellEscaped S (x # r)"
  shows "unescape (bs # x # r) = unescape (x # r) \<and> wellEscaped (insert x S) (bs # x # r)"
proof -
  from assms have "wellEscaped S r" by (simp add: wellEscaped_plain)
  then have "wellEscaped (insert x S) r" by (rule wellEscaped_mono) auto
  with assms(1) show ?thesis by (simp add: unescape_plain)
qed

lemma escLeadingDash_ok:
  assumes "wellEscaped S line"
  shows "unescape (escLeadingDash line) = unescape line \<and>
         wellEscaped (insert (CHR ''-'') S) (escLeadingDash line)"
proof (cases "take 1 line = ''-''")
  case True
  then obtain r where l: "line = CHR ''-'' # r" by (cases line) simp_all
  from escape_first[of "CHR ''-''" S r] assms l show ?thesis
    by (simp add: escLeadingDash_def)
next
  case False
  with assms show ?thesis
    by (auto simp: escLeadingDash_def intro: wellEscaped_mono)
qed

lemma escLeadingGt_ok:
  assumes "wellEscaped S line"
  shows "unescape (escLeadingGt line) = unescape line \<and>
         wellEscaped (insert (CHR ''>'') S) (escLeadingGt line)"
proof (cases "take 1 line = ''>''")
  case True
  then obtain r where l: "line = CHR ''>'' # r" by (cases line) simp_all
  from escape_first[of "CHR ''>''" S r] assms l show ?thesis
    by (simp add: escLeadingGt_def)
next
  case False
  with assms show ?thesis
    by (auto simp: escLeadingGt_def intro: wellEscaped_mono)
qed

lemma escLeadingPlus_ok:
  assumes "wellEscaped S line"
  shows "unescape (escLeadingPlus line) = unescape line \<and>
         wellEscaped (insert (CHR ''+'') S) (escLeadingPlus line)"
proof (cases "take 2 line = ''+ ''")
  case True
  then obtain r where l: "line = CHR ''+'' # r"
    by (cases line) (simp_all add: take_Cons')
  have "bs # ''+ '' @ drop 2 line = bs # line"
    using append_take_drop_id[of 2 line] True by simp
  with escape_first[of "CHR ''+''" S r] assms l True show ?thesis
    by (simp add: escLeadingPlus_def)
next
  case False
  with assms show ?thesis
    by (auto simp: escLeadingPlus_def intro: wellEscaped_mono)
qed

lemma escLeadingEquals_ok:
  assumes "wellEscaped S line"
  shows "unescape (escLeadingEquals line) = unescape line \<and>
         wellEscaped (insert (CHR ''='') S) (escLeadingEquals line)"
proof (cases "takeWhile (\<lambda>c. c = CHR ''='') line = []")
  case True
  with assms show ?thesis
    by (auto simp: escLeadingEquals_def intro: wellEscaped_mono)
next
  case False
  then obtain r where l: "line = CHR ''='' # r"
    by (cases line) (auto split: if_splits)
  have "takeWhile (\<lambda>c. c = CHR ''='') line @
        drop (length (takeWhile (\<lambda>c. c = CHR ''='') line)) line = line"
    by (metis takeWhile_dropWhile_id dropWhile_eq_drop)
  with escape_first[of "CHR ''=''" S r] assms l False show ?thesis
    by (simp add: escLeadingEquals_def Let_def)
qed

lemma escLeadingHashes_ok:
  assumes "wellEscaped S line"
  shows "unescape (escLeadingHashes line) = unescape line \<and>
         wellEscaped (insert (CHR ''#'') S) (escLeadingHashes line)"
proof -
  let ?g = "takeWhile (\<lambda>c. c = CHR ''#'') line"
  show ?thesis
  proof (cases "1 \<le> length ?g \<and> length ?g \<le> 6 \<and> take 1 (drop (length ?g) line) = '' ''")
    case False
    with assms show ?thesis
      by (auto simp: escLeadingHashes_def Let_def intro: wellEscaped_mono)
  next
    case True
    then have "?g \<noteq> []" by auto
    then obtain r where l: "line = CHR ''#'' # r"
      by (cases line) (auto split: if_splits)
    have "'' '' @ drop (length ?g + 1) line = drop (length ?g) line"
      using True append_take_drop_id[of 1 "drop (length ?g) line"] by (simp add: add.commute)
    moreover have "?g @ drop (length ?g) line = line"
      by (metis takeWhile_dropWhile_id dropWhile_eq_drop)
    ultimately have "escLeadingHashes line = bs # line"
      using True by (simp add: escLeadingHashes_def Let_def)
    with escape_first[of "CHR ''#''" S r] assms l show ?thesis by simp
  qed
qed

lemma isDigit_not_bs: "isDigit c \<Longrightarrow> c \<noteq> bs"
  by (auto simp: isDigit_def)

lemma escLeadingNumber_ok:
  assumes "wellEscaped S line"
  shows "unescape (escLeadingNumber line) = unescape line \<and>
         wellEscaped (insert (CHR ''.'') S) (escLeadingNumber line)"
proof -
  let ?g = "takeWhile isDigit line"
  let ?r = "drop (length ?g) line"
  have g: "bs \<notin> set ?g"
    using isDigit_not_bs by (auto dest: set_takeWhileD)
  have split: "line = ?g @ ?r"
    by (metis takeWhile_dropWhile_id dropWhile_eq_drop)
  show ?thesis
  proof (cases "?g \<noteq> [] \<and> take 2 ?r = ''. ''")
    case False
    with assms show ?thesis
      by (auto simp: escLeadingNumber_def Let_def intro: wellEscaped_mono)
  next
    case True
    have r: "?r = ''. '' @ drop (length ?g + 2) line"
      using True append_take_drop_id[of 2 ?r] by (simp add: add.commute)
    let ?t = "drop (length ?g + 2) line"
    have e: "escLeadingNumber line = ?g @ bs # ''. '' @ ?t"
      using True by (simp add: escLeadingNumber_def Let_def)
    have l: "line = ?g @ ''. '' @ ?t" using split r by metis
    have w: "wellEscaped S (''. '' @ ?t)"
      using assms g l wellEscaped_plain_append[of ?g S "''. '' @ ?t"] by metis
    then have w': "wellEscaped (insert (CHR ''.'') S) ?t"
      by (auto simp: wellEscaped_plain intro: wellEscaped_mono)
    have "unescape (?g @ bs # ''. '' @ ?t) = unescape (?g @ ''. '' @ ?t)"
      using g by (simp add: unescape_plain_append unescape_plain)
    moreover have "wellEscaped (insert (CHR ''.'') S) (?g @ bs # ''. '' @ ?t)"
      using g w' by (simp add: wellEscaped_plain_append wellEscaped_plain)
    ultimately show ?thesis using e l by metis
  qed
qed

text \<open>Cutting a well escaped text at a plain character that is never escaped.\<close>

lemma wellEscaped_split:
  "t \<noteq> bs \<Longrightarrow> t \<notin> S \<Longrightarrow> wellEscaped S (a @ t # b) \<Longrightarrow> wellEscaped S a \<and> wellEscaped S b"
proof (induction S a rule: wellEscaped.induct)
  case (1 S)
  then show ?case by (simp add: wellEscaped_plain)
next
  case (2 S c)
  then show ?case by (auto simp: wellEscaped_plain split: if_splits)
next
  case (3 S c d cs)
  then show ?case by (auto split: if_splits)
qed

lemma unescape_join:
  "wellEscaped S a \<Longrightarrow> t \<noteq> bs \<Longrightarrow> unescape (a @ t # b) = unescape a @ t # unescape b"
proof (induction S a rule: wellEscaped.induct)
  case (1 S)
  then show ?case by (simp add: unescape_plain)
next
  case (2 S c)
  then show ?case by (simp add: unescape_plain)
next
  case (3 S c d cs)
  then show ?case by (auto split: if_splits)
qed

lemma wellEscaped_join:
  "wellEscaped S a \<Longrightarrow> wellEscaped S b \<Longrightarrow> t \<noteq> bs \<Longrightarrow> wellEscaped S (a @ t # b)"
proof (induction S a rule: wellEscaped.induct)
  case (1 S)
  then show ?case by (simp add: wellEscaped_plain)
next
  case (2 S c)
  then show ?case by (simp add: wellEscaped_plain)
next
  case (3 S c d cs)
  then show ?case by (auto split: if_splits)
qed

lemma isLineTerminator_not_bs: "isLineTerminator t \<Longrightarrow> t \<noteq> bs"
  by (auto simp: isLineTerminator_def)

text \<open>
  A rewriting of lines that keeps what the text reads back as, line by line, keeps
  it for the whole text.
\<close>

lemma onLines_ok:
  "(\<forall>line. wellEscaped S line \<longrightarrow>
       unescape (f line) = unescape line \<and> wellEscaped S' (f line)) \<Longrightarrow>
   (\<forall>t. isLineTerminator t \<longrightarrow> t \<notin> S) \<Longrightarrow>
   wellEscaped S s \<Longrightarrow>
   unescape (onLines f s) = unescape s \<and> wellEscaped S' (onLines f s)"
proof (induction f s rule: onLines.induct)
  case (1 f s)
  let ?P = "\<lambda>c. \<not> isLineTerminator c"
  show ?case
  proof (cases "dropWhile ?P s")
    case Nil
    then have "onLines f s = f s" by (subst onLines.simps) (simp only: list.case)
    with 1(2,4) show ?thesis by simp
  next
    case (Cons t rest)
    let ?l = "takeWhile ?P s"
    have s: "s = ?l @ t # rest"
      using takeWhile_dropWhile_id[of ?P s] Cons by simp
    have lt: "isLineTerminator t"
      using hd_dropWhile[of ?P s] Cons by simp
    then have tbs: "t \<noteq> bs" by (rule isLineTerminator_not_bs)
    from lt 1(3) have tS: "t \<notin> S" by simp
    from 1(4) s have "wellEscaped S (?l @ t # rest)" by simp
    from wellEscaped_split[OF tbs tS this]
    have wl: "wellEscaped S ?l" and wr: "wellEscaped S rest" by simp_all
    from 1(1)[OF Cons 1(2) 1(3) wr]
    have ir: "unescape (onLines f rest) = unescape rest" "wellEscaped S' (onLines f rest)"
      by simp_all
    from 1(2) wl have il: "unescape (f ?l) = unescape ?l" "wellEscaped S' (f ?l)"
      by simp_all
    have o: "onLines f s = f ?l @ t # onLines f rest"
      using Cons by (subst onLines.simps) (simp only: list.case)
    have "unescape (onLines f s) = unescape (f ?l) @ t # unescape (onLines f rest)"
      unfolding o using il(2) tbs by (rule unescape_join)
    also have "\<dots> = unescape ?l @ t # unescape rest" using il(1) ir(1) by simp
    also have "\<dots> = unescape (?l @ t # rest)"
      using wl tbs by (rule unescape_join[symmetric])
    finally have u: "unescape (onLines f s) = unescape s" using s by simp
    have "wellEscaped S' (f ?l @ t # onLines f rest)"
      using il(2) ir(2) tbs by (rule wellEscaped_join)
    with u o show ?thesis by simp
  qed
qed

text \<open>Reading back what \<open>escapeMarkdown\<close> wrote gives the text it was given.\<close>

lemma unescape_escapeMarkdown: "unescape (escapeMarkdown s) = s"
proof -
  let ?t1 = "replaceAllChar bs [bs, bs] s"
  let ?t2 = "replaceAllChar (CHR ''*'') [bs, CHR ''*''] ?t1"
  let ?t3 = "onLines escLeadingDash ?t2"
  let ?t4 = "onLines escLeadingPlus ?t3"
  let ?t5 = "onLines escLeadingEquals ?t4"
  let ?t6 = "onLines escLeadingHashes ?t5"
  let ?t7 = "replaceAllChar bt [bs, bt] ?t6"
  let ?t8 = "replaceAllChar (CHR ''['') [bs, CHR ''[''] ?t7"
  let ?t9 = "replaceAllChar (CHR '']'') [bs, CHR '']''] ?t8"
  let ?t10 = "onLines escLeadingGt ?t9"
  let ?t11 = "replaceAllChar (CHR ''_'') [bs, CHR ''_''] ?t10"
  let ?t12 = "onLines escLeadingNumber ?t11"
  let ?S1 = "{bs}"
  let ?S2 = "insert (CHR ''*'') ?S1"
  let ?S3 = "insert (CHR ''-'') ?S2"
  let ?S4 = "insert (CHR ''+'') ?S3"
  let ?S5 = "insert (CHR ''='') ?S4"
  let ?S6 = "insert (CHR ''#'') ?S5"
  let ?S7 = "insert bt ?S6"
  let ?S8 = "insert (CHR ''['') ?S7"
  let ?S9 = "insert (CHR '']'') ?S8"
  let ?S10 = "insert (CHR ''>'') ?S9"
  let ?S11 = "insert (CHR ''_'') ?S10"
  let ?S12 = "insert (CHR ''.'') ?S11"
  have 1: "unescape ?t1 = s \<and> wellEscaped ?S1 ?t1" by (rule escape_backslashes)
  have 2: "unescape ?t2 = s \<and> wellEscaped ?S2 ?t2"
    using escape_char[of "CHR ''*''" ?S1 ?t1] 1 by simp
  have 3: "unescape ?t3 = s \<and> wellEscaped ?S3 ?t3"
    using onLines_ok[of ?S2 escLeadingDash ?S3 ?t2] escLeadingDash_ok 2
    by (simp add: isLineTerminator_def)
  have 4: "unescape ?t4 = s \<and> wellEscaped ?S4 ?t4"
    using onLines_ok[of ?S3 escLeadingPlus ?S4 ?t3] escLeadingPlus_ok 3
    by (simp add: isLineTerminator_def)
  have 5: "unescape ?t5 = s \<and> wellEscaped ?S5 ?t5"
    using onLines_ok[of ?S4 escLeadingEquals ?S5 ?t4] escLeadingEquals_ok 4
    by (simp add: isLineTerminator_def)
  have 6: "unescape ?t6 = s \<and> wellEscaped ?S6 ?t6"
    using onLines_ok[of ?S5 escLeadingHashes ?S6 ?t5] escLeadingHashes_ok 5
    by (simp add: isLineTerminator_def)
  have 7: "unescape ?t7 = s \<and> wellEscaped ?S7 ?t7"
    using escape_char[of bt ?S6 ?t6] 6 by simp
  have 8: "unescape ?t8 = s \<and> wellEscaped ?S8 ?t8"
    using escape_char[of "CHR ''[''" ?S7 ?t7] 7 by simp
  have 9: "unescape ?t9 = s \<and> wellEscaped ?S9 ?t9"
    using escape_char[of "CHR '']''" ?S8 ?t8] 8 by simp
  have 10: "unescape ?t10 = s \<and> wellEscaped ?S10 ?t10"
    using onLines_ok[of ?S9 escLeadingGt ?S10 ?t9] escLeadingGt_ok 9
    by (simp add: isLineTerminator_def)
  have 11: "unescape ?t11 = s \<and> wellEscaped ?S11 ?t11"
    using escape_char[of "CHR ''_''" ?S10 ?t10] 10 by simp
  have 12: "unescape ?t12 = s \<and> wellEscaped ?S12 ?t12"
    using onLines_ok[of ?S11 escLeadingNumber ?S12 ?t11] escLeadingNumber_ok 11
    by (simp add: isLineTerminator_def)
  then show ?thesis by (simp add: escapeMarkdown_def Let_def)
qed

lemma escapeSet_Nil: "escapeSet S [] = []"
  by (simp add: escapeSet_def)

lemma escapeSet_Cons:
  "escapeSet S (x # s) = (if x \<in> S then [bs, x] else [x]) @ escapeSet S s"
  by (simp add: escapeSet_def)

lemma escapeSet_append: "escapeSet S (u @ v) = escapeSet S u @ escapeSet S v"
  by (simp add: escapeSet_def)

lemma replaceAllChar_escapeSet: "replaceAllChar c [bs, c] s = escapeSet {c} s"
  by (induction s) (simp_all add: replaceAllChar_Nil replaceAllChar_Cons escapeSet_Nil escapeSet_Cons)

lemma replaceAllChar_after_escapeSet:
  "c \<notin> S \<Longrightarrow> c \<noteq> bs \<Longrightarrow>
   replaceAllChar c [bs, c] (escapeSet S s) = escapeSet (insert c S) s"
proof (induction s)
  case Nil
  then show ?case by (simp add: escapeSet_Nil replaceAllChar_Nil)
next
  case (Cons x s)
  then show ?case
    by (auto simp: escapeSet_Cons replaceAllChar_Cons)
qed

lemma replaceAllChar_bs_Cons:
  "c \<noteq> bs \<Longrightarrow> replaceAllChar c [bs, c] (bs # s) = bs # replaceAllChar c [bs, c] s"
  by (simp add: replaceAllChar_Cons)

lemma set_escapeSet: "set (escapeSet S s) \<subseteq> insert bs (set s)"
  by (induction s) (auto simp: escapeSet_Nil escapeSet_Cons)

text \<open>What a line starts with survives the escaping of other characters.\<close>

lemma take1_escapeSet:
  "c \<notin> S \<Longrightarrow> c \<noteq> bs \<Longrightarrow> (take 1 (escapeSet S l) = [c]) = (take 1 l = [c])"
  by (cases l) (auto simp: escapeSet_Nil escapeSet_Cons)

lemma take2_escapeSet:
  "c \<notin> S \<Longrightarrow> c \<noteq> bs \<Longrightarrow> d \<notin> S \<Longrightarrow> d \<noteq> bs \<Longrightarrow>
   (take 2 (escapeSet S l) = [c, d]) = (take 2 l = [c, d])"
proof (cases l)
  case Nil
  then show ?thesis by (simp add: escapeSet_Nil)
next
  case (Cons a r)
  assume h: "c \<notin> S" "c \<noteq> bs" "d \<notin> S" "d \<noteq> bs"
  show ?thesis
  proof (cases r)
    case Nil
    with Cons h show ?thesis by (auto simp: escapeSet_Nil escapeSet_Cons)
  next
    case (Cons b r')
    with \<open>l = a # r\<close> h show ?thesis
      by (auto simp: escapeSet_Cons numeral_2_eq_2)
  qed
qed

lemma run_escapeSet:
  "\<forall>x. p x \<longrightarrow> x \<notin> S \<and> x \<noteq> bs \<Longrightarrow>
   takeWhile p (escapeSet S l) = takeWhile p l \<and>
   dropWhile p (escapeSet S l) = escapeSet S (dropWhile p l)"
proof (induction l)
  case Nil
  then show ?case by (simp add: escapeSet_Nil)
next
  case (Cons a r)
  then show ?case by (auto simp: escapeSet_Cons)
qed


text \<open>Each anchored rule as a test on the line and a backslash.\<close>

lemma escLeadingDash_eq:
  "escLeadingDash x = (if take 1 x = ''-'' then bs # x else x)"
proof (cases "take 1 x = ''-''")
  case True
  then have "''-'' @ drop 1 x = x" using append_take_drop_id[of 1 x] by simp
  with True show ?thesis by (simp add: escLeadingDash_def)
next
  case False
  then show ?thesis by (simp add: escLeadingDash_def)
qed

lemma escLeadingGt_eq:
  "escLeadingGt x = (if take 1 x = ''>'' then bs # x else x)"
proof (cases "take 1 x = ''>''")
  case True
  then have "''>'' @ drop 1 x = x" using append_take_drop_id[of 1 x] by simp
  with True show ?thesis by (simp add: escLeadingGt_def)
next
  case False
  then show ?thesis by (simp add: escLeadingGt_def)
qed

lemma escLeadingPlus_eq:
  "escLeadingPlus x = (if take 2 x = ''+ '' then bs # x else x)"
proof (cases "take 2 x = ''+ ''")
  case True
  then have "''+ '' @ drop 2 x = x" using append_take_drop_id[of 2 x] by simp
  with True show ?thesis by (simp add: escLeadingPlus_def)
next
  case False
  then show ?thesis by (simp add: escLeadingPlus_def)
qed

lemma take_run_drop: "takeWhile p x @ drop (length (takeWhile p x)) x = x"
  by (metis takeWhile_dropWhile_id dropWhile_eq_drop)

lemma escLeadingEquals_eq:
  "escLeadingEquals x = (if take 1 x = ''='' then bs # x else x)"
proof -
  have "(takeWhile (\<lambda>c. c = CHR ''='') x \<noteq> []) = (take 1 x = ''='')"
    by (cases x) auto
  then show ?thesis
    using take_run_drop[of "\<lambda>c. c = CHR ''=''" x]
    by (simp add: escLeadingEquals_def Let_def)
qed

lemma escLeadingHashes_eq:
  "escLeadingHashes x = (if hashHeading x then bs # x else x)"
proof -
  let ?g = "takeWhile (\<lambda>c. c = CHR ''#'') x"
  let ?d = "drop (length ?g) x"
  have d: "dropWhile (\<lambda>c. c = CHR ''#'') x = ?d" by (rule dropWhile_eq_drop)
  have x: "?g @ ?d = x" by (rule take_run_drop)
  have hh: "hashHeading x = (1 \<le> length ?g \<and> length ?g \<le> 6 \<and> take 1 ?d = '' '')"
    unfolding hashHeading_def Let_def d ..
  show ?thesis
  proof (cases "1 \<le> length ?g \<and> length ?g \<le> 6 \<and> take 1 ?d = '' ''")
    case False
    then have "escLeadingHashes x = x"
      unfolding escLeadingHashes_def Let_def by (rule if_not_P)
    with False hh show ?thesis by simp
  next
    case True
    then have e: "escLeadingHashes x = bs # ?g @ '' '' @ drop (length ?g + 1) x"
      unfolding escLeadingHashes_def Let_def by (rule if_P)
    have "drop (length ?g + 1) x = drop 1 ?d" by (simp add: add.commute)
    moreover have "take 1 ?d @ drop 1 ?d = ?d" by (rule append_take_drop_id)
    ultimately have "'' '' @ drop (length ?g + 1) x = ?d" using True by simp
    then have "bs # ?g @ '' '' @ drop (length ?g + 1) x = bs # ?g @ ?d" by simp
    with e x have "escLeadingHashes x = bs # x" by simp
    with True hh show ?thesis by simp
  qed
qed

lemma escLeadingNumber_eq:
  "escLeadingNumber x =
     (if numberedItem x then takeWhile isDigit x @ bs # dropWhile isDigit x else x)"
proof -
  let ?g = "takeWhile isDigit x"
  let ?d = "drop (length ?g) x"
  have d: "dropWhile isDigit x = ?d" by (rule dropWhile_eq_drop)
  have ni: "numberedItem x = (?g \<noteq> [] \<and> take 2 ?d = ''. '')"
    unfolding numberedItem_def d ..
  show ?thesis
  proof (cases "?g \<noteq> [] \<and> take 2 ?d = ''. ''")
    case False
    then have e: "escLeadingNumber x = x"
      unfolding escLeadingNumber_def Let_def by (rule if_not_P)
    from False ni have "\<not> numberedItem x" by blast
    with e show ?thesis by simp
  next
    case True
    then have e: "escLeadingNumber x = ?g @ bs # ''. '' @ drop (length ?g + 2) x"
      unfolding escLeadingNumber_def Let_def by (rule if_P)
    have "drop (length ?g + 2) x = drop 2 ?d" by (simp add: add.commute)
    moreover have "take 2 ?d @ drop 2 ?d = ?d" by (rule append_take_drop_id)
    ultimately have "''. '' @ drop (length ?g + 2) x = ?d" using True by simp
    then have "?g @ bs # ''. '' @ drop (length ?g + 2) x = ?g @ bs # ?d" by simp
    with e have "escLeadingNumber x = ?g @ bs # dropWhile isDigit x" using d by simp
    with True ni show ?thesis by simp
  qed
qed

text \<open>No anchored rule matches a line that starts with a backslash.\<close>

lemma hashHeading_bs: "\<not> hashHeading (bs # s)"
  by (simp add: hashHeading_def)

lemma numberedItem_bs: "\<not> numberedItem (bs # s)"
  by (simp add: numberedItem_def isDigit_def)

lemmas anchored_eqs = escLeadingDash_eq escLeadingPlus_eq escLeadingEquals_eq
  escLeadingHashes_eq escLeadingGt_eq escLeadingNumber_eq

text \<open>The tests of the anchored rules see through the escaping of other characters.\<close>

lemma hashHeading_escapeSet:
  assumes "CHR ''#'' \<notin> S" and "CHR '' '' \<notin> S"
  shows "hashHeading (escapeSet S l) = hashHeading l"
proof -
  let ?p = "\<lambda>c. c = CHR ''#''"
  have r: "takeWhile ?p (escapeSet S l) = takeWhile ?p l \<and>
           dropWhile ?p (escapeSet S l) = escapeSet S (dropWhile ?p l)"
    using assms(1) by (intro run_escapeSet) auto
  have t: "(take 1 (escapeSet S (dropWhile ?p l)) = '' '') = (take 1 (dropWhile ?p l) = '' '')"
    using assms(2) by (intro take1_escapeSet) auto
  show ?thesis
    unfolding hashHeading_def Let_def using r t by simp
qed

lemma numberedItem_escapeSet:
  assumes "\<forall>x. isDigit x \<longrightarrow> x \<notin> S" and "CHR ''.'' \<notin> S" and "CHR '' '' \<notin> S"
  shows "numberedItem (escapeSet S l) = numberedItem l"
proof -
  have r: "takeWhile isDigit (escapeSet S l) = takeWhile isDigit l \<and>
           dropWhile isDigit (escapeSet S l) = escapeSet S (dropWhile isDigit l)"
    using assms(1) isDigit_not_bs by (intro run_escapeSet) auto
  have "take 2 (dropWhile isDigit (escapeSet S l)) = ''. '' \<longleftrightarrow>
        take 2 (dropWhile isDigit l) = ''. ''"
    using r take2_escapeSet[of "CHR ''.''" S "CHR '' ''" "dropWhile isDigit l"] assms(2,3)
    by simp
  then show ?thesis using r by (simp add: numberedItem_def)
qed


text \<open>A line: a string without a line terminator. On a line, \<open>onLines f\<close> is \<open>f\<close>.\<close>

lemma onLines_line: "\<forall>c \<in> set l. \<not> isLineTerminator c \<Longrightarrow> onLines f l = f l"
proof -
  assume "\<forall>c \<in> set l. \<not> isLineTerminator c"
  then have "dropWhile (\<lambda>c. \<not> isLineTerminator c) l = []" by simp
  then show ?thesis by (subst onLines.simps) (simp only: list.case)
qed

lemma onLines_cut:
  assumes "\<forall>c \<in> set l. \<not> isLineTerminator c" and "isLineTerminator t"
  shows "onLines f (l @ t # rest) = f l @ t # onLines f rest"
proof -
  let ?P = "\<lambda>c. \<not> isLineTerminator c"
  have d: "dropWhile ?P (l @ t # rest) = t # rest"
    using assms by (simp add: dropWhile_append3)
  have tk: "takeWhile ?P (l @ t # rest) = l"
    using assms by (simp add: takeWhile_tail)
  show ?thesis by (subst onLines.simps) (simp only: d tk list.case)
qed

lemma line_escapeSet:
  "\<forall>c \<in> set l. \<not> isLineTerminator c \<Longrightarrow> \<forall>c \<in> set (escapeSet S l). \<not> isLineTerminator c"
  using set_escapeSet[of S l] by (auto simp: isLineTerminator_def)

lemma line_bs_Cons:
  "\<forall>c \<in> set l. \<not> isLineTerminator c \<Longrightarrow> \<forall>c \<in> set (bs # l). \<not> isLineTerminator c"
  by (auto simp: isLineTerminator_def)

lemma line_if_bs:
  "\<forall>c \<in> set x. \<not> isLineTerminator c \<Longrightarrow>
   \<forall>c \<in> set (if b then bs # x else x). \<not> isLineTerminator c"
  by (simp add: isLineTerminator_def)

text \<open>The twelve replacements on one line.\<close>

lemma escapeMarkdown_line:
  assumes l: "\<forall>c \<in> set l. \<not> isLineTerminator c"
  shows "escapeMarkdown l = escapeLine l"
proof -
  let ?S2 = "{CHR ''*'', bs}"
  let ?S7 = "insert bt ?S2"
  let ?S8 = "insert (CHR ''['') ?S7"
  let ?S9 = "insert (CHR '']'') ?S8"
  let ?S11 = "insert (CHR ''_'') ?S9"
  let ?lead1 = "take 1 l = ''-'' \<or> take 2 l = ''+ '' \<or> take 1 l = ''='' \<or> hashHeading l"
  let ?t1 = "replaceAllChar bs [bs, bs] l"
  let ?t2 = "replaceAllChar (CHR ''*'') [bs, CHR ''*''] ?t1"
  let ?t3 = "onLines escLeadingDash ?t2"
  let ?t4 = "onLines escLeadingPlus ?t3"
  let ?t5 = "onLines escLeadingEquals ?t4"
  let ?t6 = "onLines escLeadingHashes ?t5"
  let ?t7 = "replaceAllChar bt [bs, bt] ?t6"
  let ?t8 = "replaceAllChar (CHR ''['') [bs, CHR ''[''] ?t7"
  let ?t9 = "replaceAllChar (CHR '']'') [bs, CHR '']''] ?t8"
  let ?t10 = "onLines escLeadingGt ?t9"
  let ?t11 = "replaceAllChar (CHR ''_'') [bs, CHR ''_''] ?t10"
  let ?t12 = "onLines escLeadingNumber ?t11"
  have e2: "?t2 = escapeSet ?S2 l"
    using replaceAllChar_after_escapeSet[of "CHR ''*''" "{bs}" l]
    by (simp add: replaceAllChar_escapeSet)
  have l2: "\<forall>c \<in> set ?t2. \<not> isLineTerminator c"
    unfolding e2 using l by (rule line_escapeSet)
  have c1: "(take 1 (escapeSet ?S2 l) = ''-'') = (take 1 l = ''-'')"
    by (intro take1_escapeSet) auto
  have c2: "(take 2 (escapeSet ?S2 l) = ''+ '') = (take 2 l = ''+ '')"
    by (intro take2_escapeSet) auto
  have c3: "(take 1 (escapeSet ?S2 l) = ''='') = (take 1 l = ''='')"
    by (intro take1_escapeSet) auto
  have c4: "hashHeading (escapeSet ?S2 l) = hashHeading l"
    by (intro hashHeading_escapeSet) auto
  have "?t3 = escLeadingDash ?t2" using l2 by (rule onLines_line)
  then have e3: "?t3 = (if take 1 l = ''-'' then bs # escapeSet ?S2 l else escapeSet ?S2 l)"
    unfolding e2 using c1 by (simp add: escLeadingDash_eq)
  have l3: "\<forall>c \<in> set ?t3. \<not> isLineTerminator c"
    unfolding e3 using l2[unfolded e2] by (rule line_if_bs)
  have "?t4 = escLeadingPlus ?t3" using l3 by (rule onLines_line)
  then have e4: "?t4 = (if take 1 l = ''-'' \<or> take 2 l = ''+ ''
                   then bs # escapeSet ?S2 l else escapeSet ?S2 l)"
    unfolding e3 using c2 by (simp add: escLeadingPlus_eq)
  have l4: "\<forall>c \<in> set ?t4. \<not> isLineTerminator c"
    unfolding e4 using l2[unfolded e2] by (rule line_if_bs)
  have "?t5 = escLeadingEquals ?t4" using l4 by (rule onLines_line)
  then have e5: "?t5 = (if take 1 l = ''-'' \<or> take 2 l = ''+ '' \<or> take 1 l = ''=''
                   then bs # escapeSet ?S2 l else escapeSet ?S2 l)"
    unfolding e4 using c3 by (simp add: escLeadingEquals_eq)
  have l5: "\<forall>c \<in> set ?t5. \<not> isLineTerminator c"
    unfolding e5 using l2[unfolded e2] by (rule line_if_bs)
  have "?t6 = escLeadingHashes ?t5" using l5 by (rule onLines_line)
  then have e6: "?t6 = (if ?lead1 then bs # escapeSet ?S2 l else escapeSet ?S2 l)"
    unfolding e5 using c4 by (simp add: escLeadingHashes_eq hashHeading_bs)
  have g9: "replaceAllChar (CHR '']'') [bs, CHR '']'']
              (replaceAllChar (CHR ''['') [bs, CHR ''['']
                 (replaceAllChar bt [bs, bt] (escapeSet ?S2 l))) = escapeSet ?S9 l"
    using replaceAllChar_after_escapeSet[of bt ?S2 l]
      replaceAllChar_after_escapeSet[of "CHR ''[''" ?S7 l]
      replaceAllChar_after_escapeSet[of "CHR '']''" ?S8 l]
    by simp
  have e9: "?t9 = (if ?lead1 then bs # escapeSet ?S9 l else escapeSet ?S9 l)"
    unfolding e6 using g9 by (simp add: replaceAllChar_bs_Cons)
  have l9: "\<forall>c \<in> set ?t9. \<not> isLineTerminator c"
    unfolding e9 using line_escapeSet[OF l, of ?S9] by (rule line_if_bs)
  have c5: "(take 1 (escapeSet ?S9 l) = ''>'') = (take 1 l = ''>'')"
    by (intro take1_escapeSet) auto
  have "?t10 = escLeadingGt ?t9" using l9 by (rule onLines_line)
  then have e10: "?t10 = (if lineLeader l then bs # escapeSet ?S9 l else escapeSet ?S9 l)"
    unfolding e9 using c5 by (auto simp: escLeadingGt_eq lineLeader_def)
  have g11: "replaceAllChar (CHR ''_'') [bs, CHR ''_''] (escapeSet ?S9 l) = escapeSet ?S11 l"
    using replaceAllChar_after_escapeSet[of "CHR ''_''" ?S9 l] by simp
  have S11: "escapeSet ?S11 l = escapeChars l"
    by (simp add: escapeChars_def insert_commute)
  have e11: "?t11 = (if lineLeader l then bs # escapeChars l else escapeChars l)"
    unfolding e10 using g11 S11 by (simp add: replaceAllChar_bs_Cons)
  have l11: "\<forall>c \<in> set ?t11. \<not> isLineTerminator c"
    unfolding e11 escapeChars_def
    using line_escapeSet[OF l, of "{bs, CHR ''*'', bt, CHR ''['', CHR '']'', CHR ''_''}"]
    by (rule line_if_bs)
  have c6: "numberedItem (escapeChars l) = numberedItem l"
    unfolding escapeChars_def by (intro numberedItem_escapeSet) (auto simp: isDigit_def)
  have r: "takeWhile isDigit (escapeChars l) = takeWhile isDigit l \<and>
           dropWhile isDigit (escapeChars l) = escapeChars (dropWhile isDigit l)"
    unfolding escapeChars_def by (intro run_escapeSet) (auto simp: isDigit_def)
  have "?t12 = escLeadingNumber ?t11" using l11 by (rule onLines_line)
  then have e12: "?t12 = escapeLine l"
    unfolding e11 using c6 r
    by (simp add: escLeadingNumber_eq numberedItem_bs escapeLine_def)
  then show ?thesis by (simp add: escapeMarkdown_def Let_def)
qed


text \<open>
  Every replacement works line by line: it keeps a line a line, and it rewrites a
  text cut at a line terminator piece by piece.
\<close>

lemma lineWise_comp:
  assumes F: "lineWise F" and G: "lineWise G"
  shows "lineWise (G \<circ> F)"
  unfolding lineWise_def
proof (intro allI impI conjI)
  fix l assume l: "\<forall>c \<in> set l. \<not> isLineTerminator c"
  from F l have fl: "\<forall>c \<in> set (F l). \<not> isLineTerminator c"
    unfolding lineWise_def by blast
  from G fl have "\<forall>c \<in> set (G (F l)). \<not> isLineTerminator c"
    unfolding lineWise_def by blast
  then show "\<forall>c \<in> set ((G \<circ> F) l). \<not> isLineTerminator c" by simp
next
  fix l t rest
  assume l: "\<forall>c \<in> set l. \<not> isLineTerminator c" and t: "isLineTerminator t"
  from F l have fl: "\<forall>c \<in> set (F l). \<not> isLineTerminator c"
    unfolding lineWise_def by blast
  from F l t have "F (l @ t # rest) = F l @ t # F rest"
    unfolding lineWise_def by blast
  moreover from G fl t have "G (F l @ t # F rest) = G (F l) @ t # G (F rest)"
    unfolding lineWise_def by blast
  ultimately show "(G \<circ> F) (l @ t # rest) = (G \<circ> F) l @ t # (G \<circ> F) rest" by simp
qed

lemma replaceAllChar_append:
  "replaceAllChar c r (u @ v) = replaceAllChar c r u @ replaceAllChar c r v"
  by (simp add: replaceAllChar_def)

lemma lineWise_replaceAllChar:
  assumes "\<not> isLineTerminator c"
  shows "lineWise (replaceAllChar c [bs, c])"
  unfolding lineWise_def
proof (intro allI impI conjI)
  fix l assume l: "\<forall>x \<in> set l. \<not> isLineTerminator x"
  have "set (replaceAllChar c [bs, c] l) \<subseteq> insert bs (set l)"
    unfolding replaceAllChar_escapeSet by (rule set_escapeSet)
  with l show "\<forall>x \<in> set (replaceAllChar c [bs, c] l). \<not> isLineTerminator x"
    by (auto simp: isLineTerminator_def)
next
  fix l t rest assume "isLineTerminator t"
  with assms have "t \<noteq> c" by auto
  then show "replaceAllChar c [bs, c] (l @ t # rest) =
      replaceAllChar c [bs, c] l @ t # replaceAllChar c [bs, c] rest"
    by (simp add: replaceAllChar_append replaceAllChar_Cons)
qed

lemma lineWise_onLines:
  assumes "\<And>l. \<forall>c \<in> set l. \<not> isLineTerminator c \<Longrightarrow> \<forall>c \<in> set (f l). \<not> isLineTerminator c"
  shows "lineWise (onLines f)"
  unfolding lineWise_def
proof (intro allI impI conjI)
  fix l assume l: "\<forall>c \<in> set l. \<not> isLineTerminator c"
  then show "\<forall>c \<in> set (onLines f l). \<not> isLineTerminator c"
    using assms[OF l] by (simp add: onLines_line)
next
  fix l t rest
  assume l: "\<forall>c \<in> set l. \<not> isLineTerminator c" and t: "isLineTerminator t"
  show "onLines f (l @ t # rest) = onLines f l @ t # onLines f rest"
    using onLines_cut[OF l t] onLines_line[OF l] by simp
qed

lemma line_anchored:
  assumes "\<forall>c \<in> set l. \<not> isLineTerminator c"
  shows "\<forall>c \<in> set (escLeadingDash l). \<not> isLineTerminator c"
    and "\<forall>c \<in> set (escLeadingPlus l). \<not> isLineTerminator c"
    and "\<forall>c \<in> set (escLeadingEquals l). \<not> isLineTerminator c"
    and "\<forall>c \<in> set (escLeadingHashes l). \<not> isLineTerminator c"
    and "\<forall>c \<in> set (escLeadingGt l). \<not> isLineTerminator c"
    and "\<forall>c \<in> set (escLeadingNumber l). \<not> isLineTerminator c"
proof -
  show "\<forall>c \<in> set (escLeadingDash l). \<not> isLineTerminator c"
    unfolding escLeadingDash_eq using assms by (rule line_if_bs)
  show "\<forall>c \<in> set (escLeadingPlus l). \<not> isLineTerminator c"
    unfolding escLeadingPlus_eq using assms by (rule line_if_bs)
  show "\<forall>c \<in> set (escLeadingEquals l). \<not> isLineTerminator c"
    unfolding escLeadingEquals_eq using assms by (rule line_if_bs)
  show "\<forall>c \<in> set (escLeadingHashes l). \<not> isLineTerminator c"
    unfolding escLeadingHashes_eq using assms by (rule line_if_bs)
  show "\<forall>c \<in> set (escLeadingGt l). \<not> isLineTerminator c"
    unfolding escLeadingGt_eq using assms by (rule line_if_bs)
  have "set (takeWhile isDigit l @ bs # dropWhile isDigit l) \<subseteq> insert bs (set l)"
    by (auto dest: set_takeWhileD set_dropWhileD)
  with assms show "\<forall>c \<in> set (escLeadingNumber l). \<not> isLineTerminator c"
    unfolding escLeadingNumber_eq by (auto simp: isLineTerminator_def)
qed

lemma escapeMarkdown_comp:
  "escapeMarkdown =
     onLines escLeadingNumber \<circ> replaceAllChar (CHR ''_'') [bs, CHR ''_''] \<circ>
     onLines escLeadingGt \<circ> replaceAllChar (CHR '']'') [bs, CHR '']''] \<circ>
     replaceAllChar (CHR ''['') [bs, CHR ''[''] \<circ> replaceAllChar bt [bs, bt] \<circ>
     onLines escLeadingHashes \<circ> onLines escLeadingEquals \<circ> onLines escLeadingPlus \<circ>
     onLines escLeadingDash \<circ> replaceAllChar (CHR ''*'') [bs, CHR ''*''] \<circ>
     replaceAllChar bs [bs, bs]"
  by (rule ext) (simp add: escapeMarkdown_def Let_def)

lemma lineWise_escapeMarkdown: "lineWise escapeMarkdown"
  unfolding escapeMarkdown_comp
  by (intro lineWise_comp lineWise_replaceAllChar lineWise_onLines line_anchored)
     (simp_all add: isLineTerminator_def)

lemma escapeMarkdown_cut:
  assumes "\<forall>c \<in> set l. \<not> isLineTerminator c" and "isLineTerminator t"
  shows "escapeMarkdown (l @ t # rest) = escapeMarkdown l @ t # escapeMarkdown rest"
  using lineWise_escapeMarkdown assms unfolding lineWise_def by blast

lemma escapeSpecAcc_eq:
  "\<forall>c \<in> set line. \<not> isLineTerminator c \<Longrightarrow>
   escapeSpecAcc line s = escapeMarkdown (rev line @ s)"
proof (induction s arbitrary: line)
  case Nil
  then have "\<forall>c \<in> set (rev line). \<not> isLineTerminator c" by simp
  then show ?case by (simp add: escapeMarkdown_line)
next
  case (Cons c cs)
  have r: "\<forall>x \<in> set (rev line). \<not> isLineTerminator x" using Cons(2) by simp
  show ?case
  proof (cases "isLineTerminator c")
    case True
    have "escapeSpecAcc [] cs = escapeMarkdown cs" using Cons(1)[of "[]"] by simp
    with True show ?thesis
      using escapeMarkdown_cut[OF r True, of cs] escapeMarkdown_line[OF r] by simp
  next
    case False
    with Cons(2) have "\<forall>x \<in> set (c # line). \<not> isLineTerminator x" by simp
    from Cons(1)[OF this] False show ?thesis by simp
  qed
qed

text \<open>The twelve replacements of the source are the escaping in one pass.\<close>

lemma escapeMarkdown_escapeSpec: "escapeMarkdown s = escapeSpec s"
  using escapeSpecAcc_eq[of "[]" s] by (simp add: escapeSpec_def)

text \<open>
  C2. A text node outside a code context and with \<open>noEscape\<close> false renders as
  \<open>escapeMarkdown\<close> of its collapsed text. \<open>escapeMarkdown\<close> applies its twelve
  replacements in the order of the source: the backslash rule first, the rule for the
  dot of an ordered list last. In that order the replacements are the escaping in one
  pass: each character or leader the rules name gets one backslash and nothing else
  changes. No backslash a rule writes is escaped again by another rule: read back,
  the escaped text is the text that was given. A star becomes a backslash and the
  star, where the backslash rule run after the star rule would double that backslash.
  Each rule is run on a text of its own. The text node \<open>- not a list\<close> renders with a
  backslash before it, and unchanged when \<open>noEscape\<close> is true.
\<close>

theorem C2_text_node_escaped:
  "(\<not> isCode opts \<and> \<not> noEscape opts \<longrightarrow>
      processNode other opts pos (Text t) = escapeMarkdown (collapseWhitespace t False) \<and>
      unescape (processNode other opts pos (Text t)) = collapseWhitespace t False) \<and>
   escapeMarkdown s =
     (onLines escLeadingNumber \<circ> replaceAllChar (CHR ''_'') [bs, CHR ''_''] \<circ>
      onLines escLeadingGt \<circ> replaceAllChar (CHR '']'') [bs, CHR '']''] \<circ>
      replaceAllChar (CHR ''['') [bs, CHR ''[''] \<circ> replaceAllChar bt [bs, bt] \<circ>
      onLines escLeadingHashes \<circ> onLines escLeadingEquals \<circ> onLines escLeadingPlus \<circ>
      onLines escLeadingDash \<circ> replaceAllChar (CHR ''*'') [bs, CHR ''*''] \<circ>
      replaceAllChar bs [bs, bs]) s \<and>
   escapeMarkdown s = escapeSpec s \<and>
   unescape (escapeMarkdown s) = s \<and>
   escapeMarkdown ''*'' = [bs, CHR ''*''] \<and>
   replaceAllChar bs [bs, bs] (replaceAllChar (CHR ''*'') [bs, CHR ''*''] ''*'')
     = [bs, bs, CHR ''*''] \<and>
   escapeMarkdown (''a'' @ [bs] @ ''b'') = ''a'' @ [bs, bs] @ ''b'' \<and>
   escapeMarkdown ''-x - y'' = [bs] @ ''-x - y'' \<and>
   escapeMarkdown ''+ a + b'' = [bs] @ ''+ a + b'' \<and>
   escapeMarkdown ''+a'' = ''+a'' \<and>
   escapeMarkdown ''== x ='' = [bs] @ ''== x ='' \<and>
   escapeMarkdown ''### h # i'' = [bs] @ ''### h # i'' \<and>
   escapeMarkdown ''###### h'' = [bs] @ ''###### h'' \<and>
   escapeMarkdown ''####### h'' = ''####### h'' \<and>
   escapeMarkdown ''#h'' = ''#h'' \<and>
   escapeMarkdown (''a'' @ [bt] @ ''b'') = ''a'' @ [bs, bt] @ ''b'' \<and>
   escapeMarkdown ''a[b]c'' = ''a'' @ [bs] @ ''[b'' @ [bs] @ '']c'' \<and>
   escapeMarkdown ''> q > r'' = [bs] @ ''> q > r'' \<and>
   escapeMarkdown ''a_b'' = ''a'' @ [bs] @ ''_b'' \<and>
   escapeMarkdown ''12. x 3. y'' = ''12'' @ [bs] @ ''. x 3. y'' \<and>
   escapeMarkdown ''12.x'' = ''12.x'' \<and>
   escapeMarkdown ''a 1. b'' = ''a 1. b'' \<and>
   escapeMarkdown (''a'' @ [nl] @ ''- b'' @ [cr] @ ''# c'' @ [nl] @ ''7. d'')
     = ''a'' @ [nl] @ [bs] @ ''- b'' @ [cr] @ [bs] @ ''# c'' @ [nl] @ ''7'' @ [bs] @ ''. d'' \<and>
   processNode other \<lparr>isCode = False, noEscape = False\<rparr> pos (Text ''- not a list'')
     = [bs] @ ''- not a list'' \<and>
   processNode other \<lparr>isCode = False, noEscape = True\<rparr> pos (Text ''- not a list'')
     = ''- not a list''"
proof -
  note ev = escapeMarkdown_def replaceAllChar_def onLines.simps isLineTerminator_def
    escLeadingDash_def escLeadingPlus_def escLeadingEquals_def escLeadingHashes_def
    escLeadingGt_def escLeadingNumber_def isDigit_def
  have a: "\<not> isCode opts \<and> \<not> noEscape opts \<longrightarrow>
      processNode other opts pos (Text t) = escapeMarkdown (collapseWhitespace t False) \<and>
      unescape (processNode other opts pos (Text t)) = collapseWhitespace t False"
    by (simp add: processNode_Text unescape_escapeMarkdown)
  have b: "escapeMarkdown s =
     (onLines escLeadingNumber \<circ> replaceAllChar (CHR ''_'') [bs, CHR ''_''] \<circ>
      onLines escLeadingGt \<circ> replaceAllChar (CHR '']'') [bs, CHR '']''] \<circ>
      replaceAllChar (CHR ''['') [bs, CHR ''[''] \<circ> replaceAllChar bt [bs, bt] \<circ>
      onLines escLeadingHashes \<circ> onLines escLeadingEquals \<circ> onLines escLeadingPlus \<circ>
      onLines escLeadingDash \<circ> replaceAllChar (CHR ''*'') [bs, CHR ''*''] \<circ>
      replaceAllChar bs [bs, bs]) s"
    by (simp add: escapeMarkdown_def Let_def)
  have c: "escapeMarkdown s = escapeSpec s" by (rule escapeMarkdown_escapeSpec)
  have d: "unescape (escapeMarkdown s) = s" by (rule unescape_escapeMarkdown)
  have e1: "escapeMarkdown ''*'' = [bs, CHR ''*'']" by (simp add: ev)
  have e2: "replaceAllChar bs [bs, bs] (replaceAllChar (CHR ''*'') [bs, CHR ''*''] ''*'')
     = [bs, bs, CHR ''*'']" by (simp add: replaceAllChar_def)
  have e3: "escapeMarkdown (''a'' @ [bs] @ ''b'') = ''a'' @ [bs, bs] @ ''b''" by (simp add: ev)
  have e4: "escapeMarkdown ''-x - y'' = [bs] @ ''-x - y''" by (simp add: ev)
  have e5: "escapeMarkdown ''+ a + b'' = [bs] @ ''+ a + b''" by (simp add: ev)
  have e6: "escapeMarkdown ''+a'' = ''+a''" by (simp add: ev)
  have e7: "escapeMarkdown ''== x ='' = [bs] @ ''== x =''" by (simp add: ev)
  have e8: "escapeMarkdown ''### h # i'' = [bs] @ ''### h # i''" by (simp add: ev)
  have e9: "escapeMarkdown ''###### h'' = [bs] @ ''###### h''" by (simp add: ev)
  have e10: "escapeMarkdown ''####### h'' = ''####### h''" by (simp add: ev)
  have e11: "escapeMarkdown ''#h'' = ''#h''" by (simp add: ev)
  have e12: "escapeMarkdown (''a'' @ [bt] @ ''b'') = ''a'' @ [bs, bt] @ ''b''" by (simp add: ev)
  have e13: "escapeMarkdown ''a[b]c'' = ''a'' @ [bs] @ ''[b'' @ [bs] @ '']c''" by (simp add: ev)
  have e14: "escapeMarkdown ''> q > r'' = [bs] @ ''> q > r''" by (simp add: ev)
  have e15: "escapeMarkdown ''a_b'' = ''a'' @ [bs] @ ''_b''" by (simp add: ev)
  have e16: "escapeMarkdown ''12. x 3. y'' = ''12'' @ [bs] @ ''. x 3. y''" by (simp add: ev)
  have e17: "escapeMarkdown ''12.x'' = ''12.x''" by (simp add: ev)
  have e18: "escapeMarkdown ''a 1. b'' = ''a 1. b''" by (simp add: ev)
  have e19: "escapeMarkdown (''a'' @ [nl] @ ''- b'' @ [cr] @ ''# c'' @ [nl] @ ''7. d'')
     = ''a'' @ [nl] @ [bs] @ ''- b'' @ [cr] @ [bs] @ ''# c'' @ [nl] @ ''7'' @ [bs] @ ''. d''"
    by (simp add: ev)
  have f1: "processNode other \<lparr>isCode = False, noEscape = False\<rparr> pos (Text ''- not a list'')
     = [bs] @ ''- not a list''"
    by (simp add: processNode_Text collapseWhitespace_def ev)
  have f2: "processNode other \<lparr>isCode = False, noEscape = True\<rparr> pos (Text ''- not a list'')
     = ''- not a list''"
    by (simp add: processNode_Text collapseWhitespace_def)
  show ?thesis
    using a b c d e1 e2 e3 e4 e5 e6 e7 e8 e9 e10 e11 e12 e13 e14 e15 e16 e17 e18 e19 f1 f2
    by blast
qed

theorem C2_witness:
  "\<not> isCode \<lparr>isCode = False, noEscape = False\<rparr> \<and>
   \<not> noEscape \<lparr>isCode = False, noEscape = False\<rparr> \<and>
   processNode nanText \<lparr>isCode = False, noEscape = False\<rparr> [] (Text ''1.  a*b'')
     = ''1'' @ [bs] @ ''. a'' @ [bs] @ ''*b'' \<and>
   unescape (processNode nanText \<lparr>isCode = False, noEscape = False\<rparr> [] (Text ''1.  a*b''))
     = ''1. a*b'' \<and>
   processNode nanText \<lparr>isCode = False, noEscape = False\<rparr> []
     (Text (''##'' @ [nl] @ '' [x]_y''))
     = [bs] @ ''## '' @ [bs] @ ''[x'' @ [bs] @ '']'' @ [bs] @ ''_y'' \<and>
   processNode nanText \<lparr>isCode = False, noEscape = False\<rparr> [] (Text ''>  + q'')
     = [bs] @ ''> + q'' \<and>
   processNode nanText \<lparr>isCode = False, noEscape = False\<rparr> [] (Text ''+ ='')
     = [bs] @ ''+ =''"
  using C2_text_node_escaped [of "\<lparr>isCode = False, noEscape = False\<rparr>" nanText "[]"
      "''1.  a*b''" "[]"]
  by (simp add: processNode_Text collapseWhitespace_def escapeMarkdown_def replaceAllChar_def
      onLines.simps isLineTerminator_def escLeadingDash_def escLeadingPlus_def
      escLeadingEquals_def escLeadingHashes_def escLeadingGt_def escLeadingNumber_def
      isDigit_def)

end
